theory Spec2Isabelle
  imports Main "HOL-Library.AList"
begin

section \<open>Data model\<close>

text \<open>
  The multi-policy solver of \<^verbatim>\<open>src/virne/solver/learning/a3c_gcn/solver.py\<close>.
  Python exceptions are values of \<open>error\<close>; a dictionary subscript with a missing key
  is \<open>KeyError\<close>, a numpy index past the end is \<open>IndexError\<close>.
\<close>

datatype pykey = StrKey string | IntKey int

datatype error =
    KeyError pykey
  | IndexError
  | TypeError string
  | Exception string
  | FileNotFoundError string
  | UnpicklingError
  | OSError string
  | RuntimeError string

text \<open>
  A value stored in an observation: the task label is an integer (the node count of the
  virtual network), every other field is an array that the solver only passes on.
\<close>

datatype 'v pyval = IntVal int | ArrVal 'v

type_synonym 'v observation = "string \<rightharpoonup> 'v pyval"

definition getitem :: "'v observation \<Rightarrow> string \<Rightarrow> error + 'v pyval" where
  "getitem obs k = (case obs k of None \<Rightarrow> Inl (KeyError (StrKey k)) | Some v \<Rightarrow> Inr v)"

text \<open>
  Modelled from the spec: \<^verbatim>\<open>RolloutBuffer\<close> (imported from
  \<^verbatim>\<open>virne.solver.learning.rl_base.buffer\<close>) is an ordered log with index-aligned
  sequences, created empty; \<^verbatim>\<open>clear()\<close> empties its contents.
  The fields are the ones \<^verbatim>\<open>_split_buffer\<close> reads, writes or mentions.
\<close>

record ('v, 'a, 'f, 'm) rollout_buffer =
  observations :: "'v observation list"
  actions :: "'a list"
  logprobs :: "'f list"
  rewards :: "'f list"
  returns :: "'f list"
  action_masks :: "'m list"

definition RolloutBuffer :: "('v, 'a, 'f, 'm) rollout_buffer" where
  "RolloutBuffer = \<lparr>observations = [], actions = [], logprobs = [], rewards = [],
     returns = [], action_masks = []\<rparr>"

definition clear :: "('v, 'a, 'f, 'm) rollout_buffer \<Rightarrow> ('v, 'a, 'f, 'm) rollout_buffer" where
  "clear b = RolloutBuffer"

section \<open>Splitting a buffer by task\<close>

text \<open>Sequencing of two steps of which the first may raise.\<close>

definition and_then :: "error + 'x \<Rightarrow> ('x \<Rightarrow> error + 'y) \<Rightarrow> error + 'y" where
  "and_then r f = (case r of Inl e \<Rightarrow> Inl e | Inr x \<Rightarrow> f x)"

text \<open>A list comprehension whose body may raise: the first error ends it.\<close>

fun comprehension :: "('x \<Rightarrow> error + 'y) \<Rightarrow> 'x list \<Rightarrow> error + 'y list" where
  "comprehension f [] = Inr []"
| "comprehension f (x # xs) =
     (case f x of
        Inl e \<Rightarrow> Inl e
      | Inr y \<Rightarrow> (case comprehension f xs of Inl e \<Rightarrow> Inl e | Inr ys \<Rightarrow> Inr (y # ys)))"

text \<open>\<^verbatim>\<open>np.array([obs['v_net_size'] for obs in buffer.observations])\<close>\<close>

definition v_net_size_list :: "'v observation list \<Rightarrow> error + 'v pyval list" where
  "v_net_size_list obss = comprehension (\<lambda>obs. getitem obs ''v_net_size'') obss"

text \<open>
  \<^verbatim>\<open>set(...)\<close> and \<^verbatim>\<open>Counter(...)\<close> hash the entries of the label array: integer
  labels are hashable, array-valued ones are not.
\<close>

fun hashable :: "'v pyval list \<Rightarrow> error + int list" where
  "hashable [] = Inr []"
| "hashable (IntVal n # vs) =
     (case hashable vs of Inl e \<Rightarrow> Inl e | Inr ns \<Rightarrow> Inr (n # ns))"
| "hashable (ArrVal a # vs) = Inl (TypeError ''unhashable type'')"

text \<open>\<^verbatim>\<open>sorted(list(set(v_net_size_list)))\<close>\<close>

definition tasks_list :: "int list \<Rightarrow> int list" where
  "tasks_list ls = sort (remdups ls)"

text \<open>\<^verbatim>\<open>np.where(v_net_size_list == task_id)[0]\<close>: the positions of a label, ascending.\<close>

definition task_indices :: "int list \<Rightarrow> int \<Rightarrow> nat list" where
  "task_indices ls task_id = filter (\<lambda>i. ls ! i = task_id) [0..<length ls]"

text \<open>
  \<^verbatim>\<open>np.array(xs)[task_indices].tolist()\<close>: numpy raises IndexError when an index is
  not below the length of \<open>xs\<close>.
\<close>

definition np_take :: "'x list \<Rightarrow> nat list \<Rightarrow> error + 'x list" where
  "np_take xs idx =
     (if list_all (\<lambda>i. i < length xs) idx then Inr (map (\<lambda>i. xs ! i) idx)
      else Inl IndexError)"

text \<open>The body of the loop of \<^verbatim>\<open>_split_buffer\<close> for one task id.\<close>

definition task_buffer_of ::
  "('v, 'a, 'f, 'm) rollout_buffer \<Rightarrow> int list \<Rightarrow> int \<Rightarrow> error + ('v, 'a, 'f, 'm) rollout_buffer"
where
  "task_buffer_of buffer ls task_id =
     (let idx = task_indices ls task_id;
          task_buffer = RolloutBuffer\<lparr>observations := map (\<lambda>i. observations buffer ! i) idx\<rparr>
      in and_then (np_take (actions buffer) idx) (\<lambda>acts.
         and_then (np_take (logprobs buffer) idx) (\<lambda>lps.
         and_then (np_take (rewards buffer) idx) (\<lambda>rws.
         and_then (np_take (returns buffer) idx) (\<lambda>rts.
         Inr (task_buffer\<lparr>actions := acts, logprobs := lps, rewards := rws,
                returns := rts\<rparr>))))))"

text \<open>
  A Python dictionary keeps insertion order: it is an association list, and
  \<^verbatim>\<open>d[k] = v\<close> is \<^const>\<open>AList.update\<close> (replace in place, or append).
\<close>

fun split_loop ::
  "('v, 'a, 'f, 'm) rollout_buffer \<Rightarrow> int list \<Rightarrow> int list \<Rightarrow>
   (int \<times> ('v, 'a, 'f, 'm) rollout_buffer) list \<Rightarrow>
   error + (int \<times> ('v, 'a, 'f, 'm) rollout_buffer) list"
where
  "split_loop buffer ls [] task_buffers = Inr task_buffers"
| "split_loop buffer ls (task_id # rest) task_buffers =
     (case task_buffer_of buffer ls task_id of
        Inl e \<Rightarrow> Inl e
      | Inr task_buffer \<Rightarrow>
          split_loop buffer ls rest (AList.update task_id task_buffer task_buffers))"

text \<open>\<^verbatim>\<open>{k: d[k] for k in sorted(list(d.keys()))}\<close>\<close>

definition sorted_dict :: "(int \<times> 'b) list \<Rightarrow> (int \<times> 'b) list" where
  "sorted_dict d = List.map_filter (\<lambda>k. map_option (Pair k) (map_of d k)) (sort (map fst d))"

definition split_buffer ::
  "('v, 'a, 'f, 'm) rollout_buffer \<Rightarrow> error + (int \<times> ('v, 'a, 'f, 'm) rollout_buffer) list"
where
  "split_buffer buffer =
     and_then (v_net_size_list (observations buffer)) (\<lambda>vs.
     and_then (hashable vs) (\<lambda>ls.
     and_then (split_loop buffer ls (tasks_list ls) []) (\<lambda>task_buffers.
     Inr (sorted_dict task_buffers))))"

text \<open>
  The entries of a buffer at the given positions, in the order of the positions: what a
  sub-buffer of the split is expected to hold. The action masks are not part of it.
\<close>

definition entries_at :: "('v, 'a, 'f, 'm) rollout_buffer \<Rightarrow> nat list \<Rightarrow> ('v, 'a, 'f, 'm) rollout_buffer" where
  "entries_at b idx = \<lparr>observations = map (\<lambda>i. observations b ! i) idx,
     actions = map (\<lambda>i. actions b ! i) idx, logprobs = map (\<lambda>i. logprobs b ! i) idx,
     rewards = map (\<lambda>i. rewards b ! i) idx, returns = map (\<lambda>i. returns b ! i) idx,
     action_masks = []\<rparr>"

text \<open>The invariant of a rollout buffer: its parallel sequences are index-aligned.\<close>

definition aligned :: "('v, 'a, 'f, 'm) rollout_buffer \<Rightarrow> bool" where
  "aligned b \<longleftrightarrow> length (actions b) = length (observations b) \<and>
     length (logprobs b) = length (observations b) \<and>
     length (rewards b) = length (observations b) \<and>
     length (returns b) = length (observations b)"

text \<open>The scenario of the specification: six steps with task labels 3, 3, 5, 5, 5, 3.\<close>

definition obs_of_size :: "int \<Rightarrow> unit observation" where
  "obs_of_size n = [''v_net_size'' \<mapsto> IntVal n]"

definition scenario_buffer :: "(unit, nat, nat, bool) rollout_buffer" where
  "scenario_buffer = \<lparr>observations = map obs_of_size [3, 3, 5, 5, 5, 3],
     actions = [10, 11, 12, 13, 14, 15], logprobs = [20, 21, 22, 23, 24, 25],
     rewards = [30, 31, 32, 33, 34, 35], returns = [40, 41, 42, 43, 44, 45],
     action_masks = [True, True, False, True, True, True]\<rparr>"

section \<open>Observation batching\<close>

text \<open>
  The argument of \<^verbatim>\<open>obs_as_tensor\<close> is a Python value: a dictionary (one observation),
  a list of Python values, or a value of another type. Of the last the model keeps what
  \<^verbatim>\<open>type(obs)\<close> prints and the exception that a subscript by a string raises on it
  (TypeError on a number, a string, a tuple or None; IndexError on a numpy array).
\<close>

datatype 'v pyobj =
    PyDict "'v observation"
  | PyList "'v pyobj list"
  | PyOther string error

text \<open>\<^verbatim>\<open>value[k]\<close> for a string \<open>k\<close>, on any Python value.\<close>

fun item :: "'v pyobj \<Rightarrow> string \<Rightarrow> error + 'v pyval" where
  "item (PyDict ob) k = getitem ob k"
| "item (PyList xs) k = Inl (TypeError ''list indices must be integers or slices, not str'')"
| "item (PyOther ty e) k = Inl e"

text \<open>
  The functions of torch, numpy and torch_geometric that \<^verbatim>\<open>obs_as_tensor\<close> calls, and
  \<^verbatim>\<open>get_pyg_data\<close> (imported from \<^verbatim>\<open>..utils\<close>), are parameters; each may raise.
  \<open>float_tensor xs device\<close> is \<^verbatim>\<open>torch.FloatTensor(np.array(xs)).to(device)\<close>,
  \<open>long_tensor\<close> likewise, and \<open>batch_from_data_list gs device\<close> is
  \<^verbatim>\<open>Batch.from_data_list(gs).to(device)\<close>.
\<close>

record ('v, 'd, 'g, 't) tensor_lib =
  get_pyg_data :: "'v pyval \<Rightarrow> 'v pyval \<Rightarrow> error + 'g"
  batch_from_data_list :: "'g list \<Rightarrow> 'd \<Rightarrow> error + 't"
  float_tensor :: "'v pyval list \<Rightarrow> 'd \<Rightarrow> error + 't"
  long_tensor :: "'v pyval list \<Rightarrow> 'd \<Rightarrow> error + 't"

text \<open>
  The loop of the batch branch: five lists grow in step, one entry per element of the
  list. The order of the subscripts is the order of the source; nothing checks that an
  element is a dictionary before it is subscripted.
\<close>

fun batch_loop ::
  "('v, 'd, 'g, 't) tensor_lib \<Rightarrow> 'v pyobj list \<Rightarrow>
   'g list \<times> 'v pyval list \<times> 'v pyval list \<times> 'v pyval list \<times> 'v pyval list \<Rightarrow>
   error + 'g list \<times> 'v pyval list \<times> 'v pyval list \<times> 'v pyval list \<times> 'v pyval list"
where
  "batch_loop lib [] acc = Inr acc"
| "batch_loop lib (observation # rest)
     (p_net_data_list, v_net_x_list, v_net_size_lst, curr_v_node_id_list, action_mask_list) =
     and_then (item observation ''p_net_x'') (\<lambda>x.
     and_then (item observation ''p_net_edge_index'') (\<lambda>e.
     and_then (get_pyg_data lib x e) (\<lambda>p_net_data.
     and_then (item observation ''v_net_x'') (\<lambda>vx.
     and_then (item observation ''v_net_size'') (\<lambda>vs.
     and_then (item observation ''curr_v_node_id'') (\<lambda>c.
     and_then (item observation ''action_mask'') (\<lambda>m.
     batch_loop lib rest
       (p_net_data_list @ [p_net_data], v_net_x_list @ [vx], v_net_size_lst @ [vs],
        curr_v_node_id_list @ [c], action_mask_list @ [m]))))))))"

text \<open>
  The returned dictionary is an association list in the key order of the dictionary
  display of each branch.
\<close>

definition obs_as_tensor ::
  "('v, 'd, 'g, 't) tensor_lib \<Rightarrow> 'v pyobj \<Rightarrow> 'd \<Rightarrow> error + (string \<times> 't) list"
where
  "obs_as_tensor lib obs device =
     (case obs of
        PyDict ob \<Rightarrow>
          and_then (getitem ob ''p_net_x'') (\<lambda>x.
          and_then (getitem ob ''p_net_edge_index'') (\<lambda>e.
          and_then (get_pyg_data lib x e) (\<lambda>g.
          and_then (batch_from_data_list lib [g] device) (\<lambda>tensor_obs_p_net.
          and_then (getitem ob ''v_net_x'') (\<lambda>vx.
          and_then (float_tensor lib [vx] device) (\<lambda>tensor_obs_v_net_x.
          and_then (getitem ob ''curr_v_node_id'') (\<lambda>c.
          and_then (long_tensor lib [c] device) (\<lambda>tensor_obs_curr_v_node_id.
          and_then (getitem ob ''action_mask'') (\<lambda>m.
          and_then (float_tensor lib [m] device) (\<lambda>tensor_obs_action_mask.
          and_then (getitem ob ''v_net_size'') (\<lambda>vs.
          and_then (float_tensor lib [vs] device) (\<lambda>tensor_obs_v_net_size.
          Inr [(''p_net'', tensor_obs_p_net), (''v_net_x'', tensor_obs_v_net_x),
               (''curr_v_node_id'', tensor_obs_curr_v_node_id),
               (''action_mask'', tensor_obs_action_mask),
               (''v_net_size'', tensor_obs_v_net_size)]))))))))))))
      | PyList obss \<Rightarrow>
          and_then (batch_loop lib obss ([], [], [], [], []))
            (\<lambda>(p_net_data_list, v_net_x_list, v_net_size_lst, curr_v_node_id_list,
                action_mask_list).
          and_then (batch_from_data_list lib p_net_data_list device) (\<lambda>tensor_obs_p_net.
          and_then (float_tensor lib v_net_x_list device) (\<lambda>tensor_obs_v_net_x.
          and_then (float_tensor lib v_net_size_lst device) (\<lambda>tensor_obs_v_net_size.
          and_then (long_tensor lib curr_v_node_id_list device) (\<lambda>tensor_obs_curr_v_node_id.
          and_then (float_tensor lib action_mask_list device) (\<lambda>tensor_obs_action_mask.
          Inr [(''p_net'', tensor_obs_p_net), (''v_net_x'', tensor_obs_v_net_x),
               (''v_net_size'', tensor_obs_v_net_size),
               (''curr_v_node_id'', tensor_obs_curr_v_node_id),
               (''action_mask'', tensor_obs_action_mask)]))))))
      | PyOther ty e \<Rightarrow> Inl (Exception (''Unrecognized type of observation '' @ ty)))"

text \<open>A well-formed observation has the six fields the batcher reads.\<close>

definition well_formed_obs :: "'v observation \<Rightarrow> bool" where
  "well_formed_obs ob \<longleftrightarrow>
     list_all (\<lambda>k. ob k \<noteq> None)
       [''p_net_x'', ''p_net_edge_index'', ''v_net_x'', ''curr_v_node_id'', ''action_mask'',
        ''v_net_size'']"

text \<open>
  A tensor library for examples: a tensor is the list of the values it was made from,
  tagged with the device; a graph is the pair of its two arrays.
\<close>

definition example_lib :: "(nat, string, nat pyval \<times> nat pyval, string \<times> nat pyval list) tensor_lib" where
  "example_lib = \<lparr>
     get_pyg_data = (\<lambda>x e. Inr (x, e)),
     batch_from_data_list = (\<lambda>gs device. Inr (device, concat (map (\<lambda>(x, e). [x, e]) gs))),
     float_tensor = (\<lambda>xs device. Inr (device, xs)),
     long_tensor = (\<lambda>xs device. Inr (device, xs))\<rparr>"

definition example_obs :: "nat observation" where
  "example_obs = [''p_net_x'' \<mapsto> ArrVal 1, ''p_net_edge_index'' \<mapsto> ArrVal 2,
     ''v_net_x'' \<mapsto> ArrVal 3, ''curr_v_node_id'' \<mapsto> IntVal 0, ''action_mask'' \<mapsto> ArrVal 4,
     ''v_net_size'' \<mapsto> IntVal 3]"

text \<open>
  Python values that are not dictionaries: the integer 3, on which a subscript raises
  TypeError, and a numpy array, on which a subscript by a string raises IndexError.
\<close>

definition int_value :: "nat pyobj" where
  "int_value = PyOther ''<class 'int'>'' (TypeError ''int object is not subscriptable'')"

definition array_value :: "nat pyobj" where
  "array_value = PyOther ''<class 'numpy.ndarray'>'' IndexError"

section \<open>The multi-policy agent\<close>

text \<open>
  Policies and optimizers are values of the types \<open>'p\<close> and \<open>'o\<close> (their parameters
  and state). \<^verbatim>\<open>copy.deepcopy\<close> of a policy is the same value held in another
  place; the places are named by references, so that \<^verbatim>\<open>self.policy = ...\<close> is an
  assignment of a reference and an update in place is seen through every reference.
  \<open>InitialPolicy\<close> is the policy that \<^verbatim>\<open>PPOSolver.__init__\<close> made with
  \<^verbatim>\<open>make_policy\<close>.
\<close>

datatype policy_ref = InitialPolicy | MetaPolicy | TaskPolicy int

datatype optimizer_ref = InitialOptimizer | MetaOptimizer | TaskOptimizer int

text \<open>
  Rollout buffers are objects in a store: \<open>heap\<close> maps an address to the buffer held
  there, \<open>buffer\<close> is the address \<^verbatim>\<open>self.buffer\<close> refers to, and a new object takes
  the address \<open>next_addr\<close>. \<open>task_policies\<close> and \<open>task_optimizers\<close> are Python
  dictionaries, in insertion order.
\<close>

record ('p, 'o, 'v, 'a, 'f, 'm) agent =
  initial_policy :: 'p
  initial_optimizer :: 'o
  meta_policy :: 'p
  meta_optimizer :: 'o
  task_policies :: "(int \<times> 'p) list"
  task_optimizers :: "(int \<times> 'o) list"
  target_steps :: nat
  infer_with_single_task_policy_id :: int
  policy :: policy_ref
  optimizer :: optimizer_ref
  searcher_policy :: policy_ref
  buffer :: nat
  heap :: "nat \<Rightarrow> ('v, 'a, 'f, 'm) rollout_buffer"
  next_addr :: nat
  model_dir :: string

text \<open>
  The functions of torch on policies and optimizers are parameters: \<open>Adam p\<close> is
  \<^verbatim>\<open>torch.optim.Adam(p.parameters(), lr=self.lr)\<close>; \<^verbatim>\<open>state_dict()\<close> reads the
  state of a module or an optimizer; \<^verbatim>\<open>load_state_dict\<close> may raise, and otherwise gives
  the object its new value.
\<close>

record ('p, 'o, 'sp, 'so) torch_lib =
  Adam :: "'p \<Rightarrow> 'o"
  policy_state_dict :: "'p \<Rightarrow> 'sp"
  optimizer_state_dict :: "'o \<Rightarrow> 'so"
  policy_load_state_dict :: "'p \<Rightarrow> 'sp \<Rightarrow> error + 'p"
  optimizer_load_state_dict :: "'o \<Rightarrow> 'so \<Rightarrow> error + 'o"

text \<open>
  A method that raises leaves the agent in the state it had reached: the result of a
  method is \<open>Inl (e, self)\<close> for an exception \<open>e\<close> raised in state \<open>self\<close>, or
  \<open>Inr self\<close>. \<open>attempt r self f\<close> continues with \<open>f\<close> unless \<open>r\<close> raised.
\<close>

definition attempt :: "error + 'x \<Rightarrow> 's \<Rightarrow> ('x \<Rightarrow> (error \<times> 's) + 's) \<Rightarrow> (error \<times> 's) + 's" where
  "attempt r self f = (case r of Inl e \<Rightarrow> Inl (e, self) | Inr x \<Rightarrow> f x)"

text \<open>\<^verbatim>\<open>d[task_id]\<close> on a dictionary keyed by task ids.\<close>

definition subscript :: "(int \<times> 'x) list \<Rightarrow> int \<Rightarrow> error + 'x" where
  "subscript d task_id =
     (case map_of d task_id of None \<Rightarrow> Inl (KeyError (IntKey task_id)) | Some x \<Rightarrow> Inr x)"

subsection \<open>Construction\<close>

text \<open>
  The statements of \<^verbatim>\<open>__init__\<close> after the two base-class constructors, which have
  produced \<open>self\<close>; \<open>kwargs\<close> holds the integer-valued keyword arguments.
\<close>

definition init ::
  "('p, 'o, 'sp, 'so) torch_lib \<Rightarrow> (string \<rightharpoonup> int) \<Rightarrow> ('p, 'o, 'v, 'a, 'f, 'm) agent \<Rightarrow>
   ('p, 'o, 'v, 'a, 'f, 'm) agent"
where
  "init lib kwargs self =
     self\<lparr>meta_policy := initial_policy self,
          meta_optimizer := Adam lib (initial_policy self),
          task_policies := [],
          task_optimizers := [],
          target_steps := 1024,
          infer_with_single_task_policy_id :=
            (case kwargs ''infer_with_single_task_policy_id'' of None \<Rightarrow> 0 | Some v \<Rightarrow> v)\<rparr>"

subsection \<open>Routing an instance to a policy\<close>

record v_net =
  num_nodes :: int

record 'pn vne_instance =
  v_net :: v_net
  p_net :: 'pn

text \<open>
  \<^verbatim>\<open>super().solve(instance)\<close> is the parameter \<open>super_solve\<close>; it runs the searcher
  of the agent it is given.
\<close>

definition solve ::
  "(('p, 'o, 'v, 'a, 'f, 'm) agent \<Rightarrow> 'pn vne_instance \<Rightarrow> 'r) \<Rightarrow>
   ('p, 'o, 'v, 'a, 'f, 'm) agent \<Rightarrow> 'pn vne_instance \<Rightarrow>
   error + ('p, 'o, 'v, 'a, 'f, 'm) agent \<times> 'r"
where
  "solve super_solve self inst =
     (let v_net_size = num_nodes (v_net inst) in
      if infer_with_single_task_policy_id self \<noteq> 0 then
        and_then (subscript (task_policies self) (infer_with_single_task_policy_id self)) (\<lambda>p.
          let self1 = self\<lparr>searcher_policy := TaskPolicy (infer_with_single_task_policy_id self)\<rparr>
          in Inr (self1, super_solve self1 inst))
      else if map_of (task_policies self) v_net_size = None then
        (let self1 = self\<lparr>searcher_policy := MetaPolicy\<rparr>
         in Inr (self1, super_solve self1 inst))
      else
        and_then (subscript (task_policies self) v_net_size) (\<lambda>p.
          let self1 = self\<lparr>searcher_policy := TaskPolicy v_net_size\<rparr>
          in Inr (self1, super_solve self1 inst)))"

subsection \<open>Fine-tuning update\<close>

definition init_task_policy_and_task_optimizer ::
  "('p, 'o, 'sp, 'so) torch_lib \<Rightarrow> int \<Rightarrow> ('p, 'o, 'v, 'a, 'f, 'm) agent \<Rightarrow>
   ('p, 'o, 'v, 'a, 'f, 'm) agent"
where
  "init_task_policy_and_task_optimizer lib task_id self =
     (let self1 = self\<lparr>task_policies := AList.update task_id (meta_policy self) (task_policies self)\<rparr>
      in self1\<lparr>task_optimizers :=
                 AList.update task_id (Adam lib (meta_policy self)) (task_optimizers self1)\<rparr>)"

text \<open>
  \<^verbatim>\<open>Counter(v_net_size_list)\<close>: the distinct labels in the order of their first
  occurrence, each with its count.
\<close>

definition stats_task_dist :: "('v, 'a, 'f, 'm) rollout_buffer \<Rightarrow> error + (int \<times> nat) list" where
  "stats_task_dist b =
     and_then (v_net_size_list (observations b)) (\<lambda>vs.
     and_then (hashable vs) (\<lambda>ls.
     Inr (map (\<lambda>k. (k, count_list ls k)) (rev (remdups (rev ls))))))"

text \<open>
  Every sub-buffer of the split is a new object: it is stored at the next free address,
  and the dictionary \<^verbatim>\<open>task_buffers\<close> maps the task id to that address.
\<close>

fun store_task_buffers ::
  "(int \<times> ('v, 'a, 'f, 'm) rollout_buffer) list \<Rightarrow> ('p, 'o, 'v, 'a, 'f, 'm) agent \<Rightarrow>
   ('p, 'o, 'v, 'a, 'f, 'm) agent \<times> (int \<times> nat) list"
where
  "store_task_buffers [] self = (self, [])"
| "store_task_buffers ((task_id, b) # rest) self =
     (let a = next_addr self;
          self1 = self\<lparr>heap := (heap self)(a := b), next_addr := Suc a\<rparr>;
          (self2, refs) = store_task_buffers rest self1
      in (self2, (task_id, a) # refs))"

text \<open>
  \<^verbatim>\<open>super().update()\<close> is the generic policy-gradient update, the parameter \<open>su\<close>:
  it reads the active policy, optimizer and buffer, leaves each with a new value, and may
  raise. The inner loop of \<^verbatim>\<open>_fine_tuning_update\<close> makes the triple of one task
  active and calls it.
\<close>

type_synonym ('p, 'o, 'v, 'a, 'f, 'm) generic_update =
  "'p \<Rightarrow> 'o \<Rightarrow> ('v, 'a, 'f, 'm) rollout_buffer \<Rightarrow>
   ('p \<times> 'o \<times> ('v, 'a, 'f, 'm) rollout_buffer) \<times> error option"

fun fine_tuning_loop ::
  "('p, 'o, 'v, 'a, 'f, 'm) generic_update \<Rightarrow> (int \<times> nat) list \<Rightarrow>
   ('p, 'o, 'v, 'a, 'f, 'm) agent \<Rightarrow>
   (error \<times> ('p, 'o, 'v, 'a, 'f, 'm) agent) + ('p, 'o, 'v, 'a, 'f, 'm) agent"
where
  "fine_tuning_loop su [] self = Inr self"
| "fine_tuning_loop su ((task_id, a) # rest) self =
     attempt (subscript (task_policies self) task_id) self (\<lambda>p.
     let self1 = self\<lparr>policy := TaskPolicy task_id\<rparr> in
     attempt (subscript (task_optimizers self1) task_id) self1 (\<lambda>opt.
     let self2 = self1\<lparr>optimizer := TaskOptimizer task_id, buffer := a\<rparr>;
         ((p', opt', b'), raised) = su p opt (heap self2 a);
         self3 = self2\<lparr>task_policies := AList.update task_id p' (task_policies self2),
                      task_optimizers := AList.update task_id opt' (task_optimizers self2),
                      heap := (heap self2)(a := b')\<rparr>
     in (case raised of Some e \<Rightarrow> Inl (e, self3) | None \<Rightarrow> fine_tuning_loop su rest self3)))"

definition fine_tuning_update ::
  "('p, 'o, 'sp, 'so) torch_lib \<Rightarrow> ('p, 'o, 'v, 'a, 'f, 'm) generic_update \<Rightarrow>
   ('p, 'o, 'v, 'a, 'f, 'm) agent \<Rightarrow>
   (error \<times> ('p, 'o, 'v, 'a, 'f, 'm) agent) + ('p, 'o, 'v, 'a, 'f, 'm) agent"
where
  "fine_tuning_update lib su self =
     (let meta_buffer = buffer self in
      attempt (stats_task_dist (heap self (buffer self))) self (\<lambda>task_dist.
      let self1 = fold (\<lambda>task_id s.
                    if map_of (task_policies s) task_id = None
                    then init_task_policy_and_task_optimizer lib task_id s else s)
                  (map fst task_dist) self in
      attempt (split_buffer (heap self1 (buffer self1))) self1 (\<lambda>tbs.
      let (self2, task_buffers) = store_task_buffers tbs self1 in
      (case fine_tuning_loop su task_buffers self2 of
         Inl raised \<Rightarrow> Inl raised
       | Inr self3 \<Rightarrow>
           Inr (self3\<lparr>heap := (heap self3)(meta_buffer := clear (heap self3 meta_buffer))\<rparr>)))))"

definition update ::
  "('p, 'o, 'sp, 'so) torch_lib \<Rightarrow> ('p, 'o, 'v, 'a, 'f, 'm) generic_update \<Rightarrow>
   ('p, 'o, 'v, 'a, 'f, 'm) agent \<Rightarrow>
   (error \<times> ('p, 'o, 'v, 'a, 'f, 'm) agent) + ('p, 'o, 'v, 'a, 'f, 'm) agent"
where
  "update lib su self = fine_tuning_update lib su self"

subsection \<open>The triple the generic update receives\<close>

text \<open>
  When \<^verbatim>\<open>_fine_tuning_update\<close> reaches a task id that labels a step of the buffer, the
  policy of the task is the one the agent held at the call, or a copy of the meta-policy
  made by the first loop; the optimizer likewise (a fresh Adam for a new policy).
\<close>

definition policy_for_update ::
  "('p, 'o, 'v, 'a, 'f, 'm) agent \<Rightarrow> int \<Rightarrow> 'p" where
  "policy_for_update self t =
     (case map_of (task_policies self) t of None \<Rightarrow> meta_policy self | Some p \<Rightarrow> p)"

definition optimizer_for_update ::
  "('p, 'o, 'sp, 'so) torch_lib \<Rightarrow> ('p, 'o, 'v, 'a, 'f, 'm) agent \<Rightarrow> int \<Rightarrow> 'o option" where
  "optimizer_for_update lib self t =
     (case map_of (task_policies self) t of
        None \<Rightarrow> Some (Adam lib (meta_policy self))
      | Some p \<Rightarrow> map_of (task_optimizers self) t)"

subsection \<open>Checkpoints\<close>

text \<open>
  The archive that \<^verbatim>\<open>save_model\<close> writes is a nested dictionary. A checkpoint read
  from a file may lack any of its keys, so every level is optional here; the task branch
  is a dictionary in insertion order.
\<close>

record ('sp, 'so) saved_model =
  saved_policy :: "'sp option"
  saved_optimizer :: "'so option"

record ('sp, 'so) checkpoint =
  ck_meta_policy :: "('sp, 'so) saved_model option"
  ck_task_policies :: "(int \<times> ('sp, 'so) saved_model) list option"

text \<open>
  A file is an archive that \<^verbatim>\<open>torch.load\<close> can read, or something else.
  \<^verbatim>\<open>torch.save\<close> needs a path it can write to.
\<close>

datatype ('sp, 'so) stored_file = Archive "('sp, 'so) checkpoint" | Garbage

record ('sp, 'so) file_system =
  files :: "string \<rightharpoonup> ('sp, 'so) stored_file"
  writable :: "string \<Rightarrow> bool"

definition torch_load :: "('sp, 'so) file_system \<Rightarrow> string \<Rightarrow> error + ('sp, 'so) checkpoint" where
  "torch_load fs path =
     (case files fs path of
        None \<Rightarrow> Inl (FileNotFoundError path)
      | Some Garbage \<Rightarrow> Inl UnpicklingError
      | Some (Archive c) \<Rightarrow> Inr c)"

definition torch_save ::
  "('sp, 'so) checkpoint \<Rightarrow> string \<Rightarrow> ('sp, 'so) file_system \<Rightarrow> error + ('sp, 'so) file_system"
where
  "torch_save c path fs =
     (if writable fs path then Inr (fs\<lparr>files := (files fs)(path \<mapsto> Archive c)\<rparr>)
      else Inl (OSError path))"

text \<open>\<^verbatim>\<open>os.path.join\<close> of two POSIX paths.\<close>

definition path_join :: "string \<Rightarrow> string \<Rightarrow> string" where
  "path_join a b =
     (if b \<noteq> [] \<and> hd b = CHR ''/'' then b
      else if a = [] \<or> last a = CHR ''/'' then a @ b
      else a @ ''/'' @ b)"

text \<open>\<^verbatim>\<open>d[key]\<close> on a dictionary read from a file.\<close>

definition key_of :: "string \<Rightarrow> 'x option \<Rightarrow> error + 'x" where
  "key_of k entry = (case entry of None \<Rightarrow> Inl (KeyError (StrKey k)) | Some x \<Rightarrow> Inr x)"

definition save_model ::
  "('p, 'o, 'sp, 'so) torch_lib \<Rightarrow> ('p, 'o, 'v, 'a, 'f, 'm) agent \<Rightarrow> string \<Rightarrow>
   ('sp, 'so) file_system \<Rightarrow> error + ('sp, 'so) file_system"
where
  "save_model lib self checkpoint_fname fs =
     (let checkpoint_fname = path_join (model_dir self) checkpoint_fname in
      and_then (comprehension (\<lambda>task_id.
          and_then (subscript (task_policies self) task_id) (\<lambda>p.
          and_then (subscript (task_optimizers self) task_id) (\<lambda>opt.
          Inr (task_id, p, opt))))
        (map fst (task_policies self))) (\<lambda>model_list.
      let meta = \<lparr>saved_policy = Some (policy_state_dict lib (meta_policy self)),
                  saved_optimizer = Some (optimizer_state_dict lib (meta_optimizer self))\<rparr>;
          tasks = fold (\<lambda>(task_id, p, opt) d.
                    AList.update task_id
                      \<lparr>saved_policy = Some (policy_state_dict lib p),
                       saved_optimizer = Some (optimizer_state_dict lib opt)\<rparr> d)
                  model_list [];
          task_model_dict = \<lparr>ck_meta_policy = Some meta, ck_task_policies = Some tasks\<rparr>
      in torch_save task_model_dict checkpoint_fname fs))"

text \<open>
  The body of the loop of \<^verbatim>\<open>load_model\<close> for one task id of the archive. Each
  \<^verbatim>\<open>load_state_dict\<close> acts in place on the object found under the task id.
\<close>

definition load_task ::
  "('p, 'o, 'sp, 'so) torch_lib \<Rightarrow> (int \<times> ('sp, 'so) saved_model) list \<Rightarrow> int \<Rightarrow>
   ('p, 'o, 'v, 'a, 'f, 'm) agent \<Rightarrow>
   (error \<times> ('p, 'o, 'v, 'a, 'f, 'm) agent) + ('p, 'o, 'v, 'a, 'f, 'm) agent"
where
  "load_task lib tasks task_id self =
     (let self1 = (if map_of (task_policies self) task_id = None
                   then init_task_policy_and_task_optimizer lib task_id self else self) in
      attempt (subscript (task_policies self1) task_id) self1 (\<lambda>p.
      attempt (subscript tasks task_id) self1 (\<lambda>entry.
      attempt (key_of ''policy'' (saved_policy entry)) self1 (\<lambda>sd.
      attempt (policy_load_state_dict lib p sd) self1 (\<lambda>p'.
      let self2 = self1\<lparr>task_policies := AList.update task_id p' (task_policies self1)\<rparr> in
      attempt (subscript (task_optimizers self2) task_id) self2 (\<lambda>opt.
      attempt (subscript tasks task_id) self2 (\<lambda>entry.
      attempt (key_of ''optimizer'' (saved_optimizer entry)) self2 (\<lambda>sd.
      attempt (optimizer_load_state_dict lib opt sd) self2 (\<lambda>opt'.
      Inr (self2\<lparr>task_optimizers := AList.update task_id opt' (task_optimizers self2)\<rparr>))))))))))"

fun load_loop ::
  "('p, 'o, 'sp, 'so) torch_lib \<Rightarrow> (int \<times> ('sp, 'so) saved_model) list \<Rightarrow> int list \<Rightarrow>
   ('p, 'o, 'v, 'a, 'f, 'm) agent \<Rightarrow>
   (error \<times> ('p, 'o, 'v, 'a, 'f, 'm) agent) + ('p, 'o, 'v, 'a, 'f, 'm) agent"
where
  "load_loop lib tasks [] self = Inr self"
| "load_loop lib tasks (task_id # rest) self =
     (case load_task lib tasks task_id self of
        Inl raised \<Rightarrow> Inl raised
      | Inr self1 \<Rightarrow> load_loop lib tasks rest self1)"

text \<open>The body of the \<^verbatim>\<open>try\<close> block of \<^verbatim>\<open>load_model\<close>.\<close>

definition load_model_try ::
  "('p, 'o, 'sp, 'so) torch_lib \<Rightarrow> ('p, 'o, 'v, 'a, 'f, 'm) agent \<Rightarrow> string \<Rightarrow>
   ('sp, 'so) file_system \<Rightarrow>
   (error \<times> ('p, 'o, 'v, 'a, 'f, 'm) agent) + ('p, 'o, 'v, 'a, 'f, 'm) agent"
where
  "load_model_try lib self checkpoint_path fs =
     attempt (torch_load fs checkpoint_path) self (\<lambda>checkpoint.
     attempt (key_of ''meta_policy'' (ck_meta_policy checkpoint)) self (\<lambda>entry.
     attempt (key_of ''policy'' (saved_policy entry)) self (\<lambda>sd.
     attempt (policy_load_state_dict lib (meta_policy self) sd) self (\<lambda>p.
     let self1 = self\<lparr>meta_policy := p\<rparr> in
     attempt (key_of ''meta_policy'' (ck_meta_policy checkpoint)) self1 (\<lambda>entry.
     attempt (key_of ''optimizer'' (saved_optimizer entry)) self1 (\<lambda>sd.
     attempt (optimizer_load_state_dict lib (meta_optimizer self1) sd) self1 (\<lambda>opt.
     let self2 = self1\<lparr>meta_optimizer := opt\<rparr> in
     attempt (key_of ''task_policies'' (ck_task_policies checkpoint)) self2 (\<lambda>tasks.
     load_loop lib tasks (map fst tasks) self2))))))))"

text \<open>
  \<^verbatim>\<open>except Exception\<close> swallows the exception: \<^verbatim>\<open>load_model\<close> returns in the state
  the \<^verbatim>\<open>try\<close> block had reached. (The messages it prints are not modelled.)
\<close>

definition load_model ::
  "('p, 'o, 'sp, 'so) torch_lib \<Rightarrow> ('p, 'o, 'v, 'a, 'f, 'm) agent \<Rightarrow> string \<Rightarrow>
   ('sp, 'so) file_system \<Rightarrow>
   (error \<times> ('p, 'o, 'v, 'a, 'f, 'm) agent) + ('p, 'o, 'v, 'a, 'f, 'm) agent"
where
  "load_model lib self checkpoint_path fs =
     (case load_model_try lib self checkpoint_path fs of
        Inl (e, self1) \<Rightarrow> Inr self1
      | Inr self1 \<Rightarrow> Inr self1)"

text \<open>
  The invariant that the code keeps between the two task dictionaries: a task policy
  comes with its optimizer.
\<close>

definition paired :: "('p, 'o, 'v, 'a, 'f, 'm) agent \<Rightarrow> bool" where
  "paired self \<longleftrightarrow>
     list_all (\<lambda>task_id. map_of (task_optimizers self) task_id \<noteq> None)
       (map fst (task_policies self))"

subsection \<open>Example agents\<close>

text \<open>
  A torch library for examples: a policy and an optimizer are natural numbers, a state
  dictionary is the number itself, and loading a state dictionary succeeds.
\<close>

definition example_torch :: "(nat, nat, nat, nat) torch_lib" where
  "example_torch = \<lparr>Adam = (\<lambda>p. 0), policy_state_dict = (\<lambda>p. p),
     optimizer_state_dict = (\<lambda>opt. opt), policy_load_state_dict = (\<lambda>p sd. Inr sd),
     optimizer_load_state_dict = (\<lambda>opt sd. Inr sd)\<rparr>"

text \<open>
  An agent right after construction, whose buffer (at address 0) holds the scenario of
  six steps.
\<close>

definition example_agent :: "(nat, nat, unit, nat, nat, bool) agent" where
  "example_agent = \<lparr>initial_policy = 7, initial_optimizer = 0, meta_policy = 7,
     meta_optimizer = 0, task_policies = [], task_optimizers = [], target_steps = 1024,
     infer_with_single_task_policy_id = 0, policy = InitialPolicy,
     optimizer = InitialOptimizer, searcher_policy = InitialPolicy, buffer = 0,
     heap = (\<lambda>a. RolloutBuffer)(0 := scenario_buffer), next_addr = 1,
     model_dir = ''model''\<rparr>"

text \<open>An instance whose virtual network has three nodes.\<close>

definition example_instance :: "unit vne_instance" where
  "example_instance = \<lparr>v_net = \<lparr>num_nodes = 3\<rparr>, p_net = ()\<rparr>"


definition failing_update :: "(nat, nat, unit, nat, nat, bool) generic_update" where
  "failing_update p opt b =
     (if 10 \<in> set (actions b) then ((p, opt, b), Some (RuntimeError ''nan''))
      else ((p + length (observations b), Suc opt, clear b), None))"

text \<open>
  A trained agent with policies for the tasks 3 and 5; a file system in which every path
  can be written; and an archive that has the meta entry but lacks the key
  \<^verbatim>\<open>'task_policies'\<close>.
\<close>

definition trained_agent :: "(nat, nat, unit, nat, nat, bool) agent" where
  "trained_agent = example_agent\<lparr>meta_policy := 8, meta_optimizer := 2,
     task_policies := [(3, 10), (5, 11)], task_optimizers := [(3, 1), (5, 4)]\<rparr>"

definition empty_fs :: "(nat, nat) file_system" where
  "empty_fs = \<lparr>files = Map.empty, writable = (\<lambda>path. True)\<rparr>"

definition truncated_fs :: "(nat, nat) file_system" where
  "truncated_fs = \<lparr>files = [''ckpt.pt'' \<mapsto> Archive \<lparr>ck_meta_policy =
       Some \<lparr>saved_policy = Some 42, saved_optimizer = Some 1\<rparr>, ck_task_policies = None\<rparr>],
     writable = (\<lambda>path. True)\<rparr>"

text \<open>
  A torch library whose \<^verbatim>\<open>load_state_dict\<close> keeps a trace of the object it loads
  into (1000 times its old value is added), and whose fresh Adam is derived from the
  policy it is made for: the result of a load shows which object was the target.
\<close>

definition tagging_torch :: "(nat, nat, nat, nat) torch_lib" where
  "tagging_torch = \<lparr>Adam = (\<lambda>p. p), policy_state_dict = (\<lambda>p. p),
     optimizer_state_dict = (\<lambda>opt. opt),
     policy_load_state_dict = (\<lambda>p sd. Inr (sd + 1000 * p)),
     optimizer_load_state_dict = (\<lambda>opt sd. Inr (sd + 1000 * opt))\<rparr>"

section \<open>Properties of the split\<close>

lemma alist_update_fresh: "k \<notin> fst ` set al \<Longrightarrow> AList.update k v al = al @ [(k, v)]"
  by (induction al) auto

lemma map_filter_keys:
  "distinct (map fst d) \<Longrightarrow> (\<And>k. k \<in> fst ` set d \<Longrightarrow> m k = map_of d k) \<Longrightarrow>
   List.map_filter (\<lambda>k. map_option (Pair k) (m k)) (map fst d) = d"
proof (induction d arbitrary: m)
  case Nil
  then show ?case by (simp add: List.map_filter_simps)
next
  case (Cons p d)
  obtain k v where p: "p = (k, v)" by (cases p)
  have "List.map_filter (\<lambda>k. map_option (Pair k) (m k)) (map fst d) = d"
  proof (rule Cons.IH)
    show "distinct (map fst d)" using Cons.prems(1) by simp
    fix k' assume k': "k' \<in> fst ` set d"
    then have "k' \<noteq> k" using Cons.prems(1) p by auto
    then show "m k' = map_of d k'" using Cons.prems(2)[of k'] k' p by simp
  qed
  moreover have "m k = Some v" using Cons.prems(2)[of k] p by simp
  ultimately show ?case using p by (simp add: List.map_filter_simps)
qed

lemma sorted_dict_id: "sorted (map fst d) \<Longrightarrow> distinct (map fst d) \<Longrightarrow> sorted_dict d = d"
  unfolding sorted_dict_def by (simp add: sorted_sort_id map_filter_keys)

lemma task_indices_bound: "i \<in> set (task_indices ls t) \<Longrightarrow> i < length ls"
  by (simp add: task_indices_def)

lemma np_take_ok: "length xs = length ls \<Longrightarrow> np_take xs (task_indices ls t) = Inr (map (\<lambda>i. xs ! i) (task_indices ls t))"
  by (simp add: np_take_def list_all_iff task_indices_def)

lemma task_buffer_of_aligned:
  assumes "aligned b" "length ls = length (observations b)"
  shows "task_buffer_of b ls t = Inr (entries_at b (task_indices ls t))"
  using assms
  by (simp add: task_buffer_of_def Let_def np_take_ok and_then_def entries_at_def aligned_def RolloutBuffer_def)

lemma split_loop_aligned:
  assumes "aligned b" "length ls = length (observations b)"
  shows "distinct ts \<Longrightarrow> set ts \<inter> fst ` set acc = {} \<Longrightarrow>
    split_loop b ls ts acc = Inr (acc @ map (\<lambda>t. (t, entries_at b (task_indices ls t))) ts)"
proof (induction ts arbitrary: acc)
  case Nil
  then show ?case by simp
next
  case (Cons t ts)
  have fresh: "t \<notin> fst ` set acc" using Cons.prems(2) by auto
  have "set ts \<inter> fst ` set (acc @ [(t, entries_at b (task_indices ls t))]) = {}"
    using Cons.prems by auto
  with Cons.IH[of "acc @ [(t, entries_at b (task_indices ls t))]"] Cons.prems(1) fresh
  show ?case
    by (simp add: task_buffer_of_aligned[OF assms] alist_update_fresh)
qed

lemma comprehension_labels:
  "length ls = length obss \<Longrightarrow> \<forall>i<length ls. (obss ! i) ''v_net_size'' = Some (IntVal (ls ! i)) \<Longrightarrow>
   v_net_size_list obss = Inr (map IntVal ls)"
  unfolding v_net_size_list_def
proof (induction obss arbitrary: ls)
  case Nil
  then show ?case by simp
next
  case (Cons ob obss)
  then obtain l ls' where ls: "ls = l # ls'" by (cases ls) auto
  have "comprehension (\<lambda>obs. getitem obs ''v_net_size'') obss = Inr (map IntVal ls')"
  proof (rule Cons.IH)
    show "length ls' = length obss" using Cons.prems(1) ls by simp
    show "\<forall>i<length ls'. (obss ! i) ''v_net_size'' = Some (IntVal (ls' ! i))"
      using Cons.prems(2) ls by fastforce
  qed
  moreover have "ob ''v_net_size'' = Some (IntVal l)" using Cons.prems(2) ls by fastforce
  ultimately show ?case using ls by (simp add: getitem_def)
qed

lemma hashable_ints: "hashable (map IntVal ls) = Inr ls"
  by (induction ls) auto

lemma split_buffer_explicit:
  assumes "aligned b" "length ls = length (observations b)"
    "\<forall>i<length ls. (observations b ! i) ''v_net_size'' = Some (IntVal (ls ! i))"
  shows "split_buffer b = Inr (map (\<lambda>t. (t, entries_at b (task_indices ls t))) (tasks_list ls))"
proof -
  have d: "distinct (tasks_list ls)" "sorted (tasks_list ls)" by (simp_all add: tasks_list_def)
  have "split_loop b ls (tasks_list ls) [] = Inr (map (\<lambda>t. (t, entries_at b (task_indices ls t))) (tasks_list ls))"
    using split_loop_aligned[OF assms(1,2) d(1), of "[]"] by simp
  moreover have "sorted_dict (map (\<lambda>t. (t, entries_at b (task_indices ls t))) (tasks_list ls))
      = map (\<lambda>t. (t, entries_at b (task_indices ls t))) (tasks_list ls)"
    by (rule sorted_dict_id) (simp_all add: comp_def d)
  ultimately show ?thesis
    by (simp add: split_buffer_def comprehension_labels[OF assms(2,3)] hashable_ints and_then_def)
qed

lemma count_list_filter: "count_list xs t = length (filter (\<lambda>x. x = t) xs)"
  by (induction xs) auto

lemma task_indices_length: "length (task_indices ls t) = count_list ls t"
proof -
  have "length (filter (\<lambda>x. x = t) (map (\<lambda>i. ls ! i) [0..<length ls])) = length (filter (\<lambda>i. ls ! i = t) [0..<length ls])"
    by (simp add: filter_map comp_def)
  then show ?thesis by (simp add: task_indices_def map_nth count_list_filter)
qed

lemma sizes_sum: "sum_list (map (\<lambda>t. length (task_indices ls t)) (tasks_list ls)) = length ls"
proof -
  have "sum_list (map (\<lambda>t. length (task_indices ls t)) (tasks_list ls)) = sum (count_list ls) (set (tasks_list ls))"
    by (simp add: task_indices_length sum_list_distinct_conv_sum_set tasks_list_def)
  also have "\<dots> = length ls" by (simp add: tasks_list_def sum_count_set)
  finally show ?thesis .
qed

lemma task_indices_sorted: "sorted_wrt (<) (task_indices ls t)"
  unfolding task_indices_def by (simp add: sorted_wrt_filter)

lemma task_indices_disjoint: "t \<noteq> t' \<Longrightarrow> set (task_indices ls t) \<inter> set (task_indices ls t') = {}"
  by (auto simp: task_indices_def)

lemma task_indices_cover: "i < length ls \<Longrightarrow> i \<in> set (task_indices ls t) \<longleftrightarrow> t = ls ! i"
  by (auto simp: task_indices_def)

lemma set_tasks_list: "set (tasks_list ls) = set ls"
  by (simp add: tasks_list_def)

lemma tasks_list_ascending: "sorted_wrt (<) (tasks_list ls)"
  by (simp add: tasks_list_def strict_sorted_iff)

lemma label_column:
  assumes "map (\<lambda>obs. obs ''v_net_size'') obss = map (\<lambda>n. Some (IntVal n)) ls"
  shows "length ls = length obss"
    and "\<forall>i<length ls. (obss ! i) ''v_net_size'' = Some (IntVal (ls ! i))"
proof -
  show len: "length ls = length obss" using assms by (metis length_map)
  show "\<forall>i<length ls. (obss ! i) ''v_net_size'' = Some (IntVal (ls ! i))"
  proof (intro allI impI)
    fix i assume i: "i < length ls"
    have "map (\<lambda>obs. obs ''v_net_size'') obss ! i = map (\<lambda>n. Some (IntVal n)) ls ! i"
      using assms by simp
    then show "(obss ! i) ''v_net_size'' = Some (IntVal (ls ! i))" using i len by simp
  qed
qed

text \<open>
  Claim C1. For an index-aligned rollout buffer whose observations carry the integer task
  labels \<open>ls\<close> under \<^verbatim>\<open>'v_net_size'\<close> (the label column of the buffer is \<open>ls\<close>), \<^verbatim>\<open>_split_buffer\<close> returns
  a mapping that iterates in strictly ascending task-id order over exactly the labels that
  occur; the sub-buffer of task \<open>t\<close> holds, in each of the five sequences, the entries at
  the positions \<open>task_indices ls t\<close>, which are strictly increasing (the original
  relative order), pairwise disjoint between tasks and cover every index exactly once; the
  sizes sum to the length of the buffer. For the labels 3, 3, 5, 5, 5, 3 the mapping
  iterates as 3, 5 with the positions 0, 1, 5 and 2, 3, 4.
\<close>

theorem split_buffer_partition:
  assumes al: "aligned b"
    and labels: "map (\<lambda>obs. obs ''v_net_size'') (observations b) = map (\<lambda>n. Some (IntVal n)) ls"
  shows "\<exists>tb. split_buffer b = Inr tb
    \<and> map fst tb = tasks_list ls \<and> sorted_wrt (<) (map fst tb) \<and> set (map fst tb) = set ls
    \<and> sum_list (map (\<lambda>(t, sb). length (observations sb)) tb) = length (observations b)
    \<and> (\<forall>(t, sb)\<in>set tb.
          observations sb = map (\<lambda>i. observations b ! i) (task_indices ls t)
        \<and> actions sb = map (\<lambda>i. actions b ! i) (task_indices ls t)
        \<and> logprobs sb = map (\<lambda>i. logprobs b ! i) (task_indices ls t)
        \<and> rewards sb = map (\<lambda>i. rewards b ! i) (task_indices ls t)
        \<and> returns sb = map (\<lambda>i. returns b ! i) (task_indices ls t))
    \<and> (\<forall>t. sorted_wrt (<) (task_indices ls t) \<and> set (task_indices ls t) \<subseteq> {..<length (observations b)})
    \<and> (\<forall>t t'. t \<noteq> t' \<longrightarrow> set (task_indices ls t) \<inter> set (task_indices ls t') = {})
    \<and> (\<forall>i<length (observations b). \<exists>!t. t \<in> set (map fst tb) \<and> i \<in> set (task_indices ls t))
    \<and> (ls = [3, 3, 5, 5, 5, 3] \<longrightarrow>
          map fst tb = [3, 5] \<and> task_indices ls 3 = [0, 1, 5] \<and> task_indices ls 5 = [2, 3, 4])"
proof -
  note len = label_column(1)[OF labels] and lab = label_column(2)[OF labels]
  let ?tb = "map (\<lambda>t. (t, entries_at b (task_indices ls t))) (tasks_list ls)"
  have eq: "split_buffer b = Inr ?tb" by (rule split_buffer_explicit[OF al len lab])
  have keys: "map fst ?tb = tasks_list ls" by (simp add: comp_def)
  have asc: "sorted_wrt (<) (map fst ?tb)" unfolding keys by (rule tasks_list_ascending)
  have dom: "set (map fst ?tb) = set ls" unfolding keys by (rule set_tasks_list)
  have sizes: "sum_list (map (\<lambda>(t, sb). length (observations sb)) ?tb) = length (observations b)"
    using sizes_sum[of ls] len by (simp add: comp_def entries_at_def)
  have content: "\<forall>(t, sb)\<in>set ?tb.
          observations sb = map (\<lambda>i. observations b ! i) (task_indices ls t)
        \<and> actions sb = map (\<lambda>i. actions b ! i) (task_indices ls t)
        \<and> logprobs sb = map (\<lambda>i. logprobs b ! i) (task_indices ls t)
        \<and> rewards sb = map (\<lambda>i. rewards b ! i) (task_indices ls t)
        \<and> returns sb = map (\<lambda>i. returns b ! i) (task_indices ls t)"
    by (auto simp: entries_at_def)
  have order: "\<forall>t. sorted_wrt (<) (task_indices ls t) \<and> set (task_indices ls t) \<subseteq> {..<length (observations b)}"
    using task_indices_sorted task_indices_bound len by (metis lessThan_iff subsetI)
  have disj: "\<forall>t t'. t \<noteq> t' \<longrightarrow> set (task_indices ls t) \<inter> set (task_indices ls t') = {}"
    using task_indices_disjoint by blast
  have cover: "\<forall>i<length (observations b). \<exists>!t. t \<in> set (map fst ?tb) \<and> i \<in> set (task_indices ls t)"
  proof (intro allI impI)
    fix i assume i: "i < length (observations b)"
    then have "ls ! i \<in> set ls" using len by simp
    then show "\<exists>!t. t \<in> set (map fst ?tb) \<and> i \<in> set (task_indices ls t)"
      unfolding dom using i len by (auto simp: task_indices_cover)
  qed
  have scen: "ls = [3, 3, 5, 5, 5, 3] \<longrightarrow>
          map fst ?tb = [3, 5] \<and> task_indices ls 3 = [0, 1, 5] \<and> task_indices ls 5 = [2, 3, 4]"
    unfolding keys by (auto simp: tasks_list_def task_indices_def upt_rec nth_Cons')
  show ?thesis
    apply (rule exI[of _ ?tb])
    apply (intro conjI)
    apply (rule eq) apply (rule keys) apply (rule asc) apply (rule dom) apply (rule sizes)
    apply (rule content) apply (rule order) apply (rule disj) apply (rule cover) apply (rule scen)
    done
qed

text \<open>The scenario buffer satisfies the hypotheses of C1, and the split is as stated.\<close>

theorem split_buffer_partition_witness:
  "aligned scenario_buffer
   \<and> map (\<lambda>obs. obs ''v_net_size'') (observations scenario_buffer)
       = map (\<lambda>n. Some (IntVal n)) [3, 3, 5, 5, 5, 3]
   \<and> (\<exists>tb. split_buffer scenario_buffer = Inr tb \<and> map fst tb = [3, 5]
        \<and> sum_list (map (\<lambda>(t, sb). length (observations sb)) tb) = length (observations scenario_buffer)
        \<and> task_indices [3, 3, 5, 5, 5, 3] 3 = [0, 1, 5]
        \<and> task_indices [3, 3, 5, 5, 5, 3] 5 = [2, 3, 4])"
proof -
  have h1: "aligned scenario_buffer" by (simp add: aligned_def scenario_buffer_def)
  have h2: "map (\<lambda>obs. obs ''v_net_size'') (observations scenario_buffer)
       = map (\<lambda>n. Some (IntVal n)) [3, 3, 5, 5, 5, 3]"
    by (simp add: scenario_buffer_def obs_of_size_def)
  have "\<exists>tb. split_buffer scenario_buffer = Inr tb \<and> map fst tb = [3, 5]
        \<and> sum_list (map (\<lambda>(t, sb). length (observations sb)) tb) = length (observations scenario_buffer)
        \<and> task_indices [3, 3, 5, 5, 5, 3] 3 = [0, 1, 5]
        \<and> task_indices [3, 3, 5, 5, 5, 3] 5 = [2, 3, 4]"
    using split_buffer_partition[OF h1 h2]
    apply (elim exE conjE)
    subgoal for tb
      apply (rule exI[of _ tb])
      apply simp
      done
    done
  with h1 h2 show ?thesis by blast
qed

text \<open>
  The alignment matters: when the returns of the scenario buffer are missing, numpy's
  indexing raises.
\<close>

lemma split_buffer_misaligned_raises:
  "split_buffer (scenario_buffer\<lparr>returns := []\<rparr>) = Inl IndexError"
  by (simp add: split_buffer_def and_then_def v_net_size_list_def getitem_def scenario_buffer_def
      obs_of_size_def tasks_list_def task_buffer_of_def task_indices_def np_take_def Let_def
      upt_rec nth_Cons')

lemma task_buffer_of_masks: "task_buffer_of b ls t = Inr sb \<Longrightarrow> action_masks sb = []"
  by (auto simp: task_buffer_of_def Let_def and_then_def RolloutBuffer_def split: sum.splits)

lemma set_alist_update: "set (AList.update k v al) \<subseteq> insert (k, v) (set al)"
  by (induction al) auto

lemma split_loop_masks:
  "split_loop b ls ts acc = Inr tb \<Longrightarrow> \<forall>(t, sb)\<in>set acc. action_masks sb = [] \<Longrightarrow>
   \<forall>(t, sb)\<in>set tb. action_masks sb = []"
proof (induction ts arbitrary: acc)
  case Nil
  then show ?case by simp
next
  case (Cons t ts)
  from Cons.prems(1) obtain sb where sb: "task_buffer_of b ls t = Inr sb"
    and rest: "split_loop b ls ts (AList.update t sb acc) = Inr tb"
    by (auto split: sum.splits)
  have "\<forall>(t, sb)\<in>set (AList.update t sb acc). action_masks sb = []"
    using set_alist_update[of t sb acc] Cons.prems(2) task_buffer_of_masks[OF sb] by auto
  with Cons.IH[OF rest] show ?case .
qed

lemma set_sorted_dict: "set (sorted_dict d) \<subseteq> set d"
  by (auto simp: sorted_dict_def List.map_filter_def dest: map_of_SomeD)

text \<open>
  Claim C10. Whatever the source buffer holds, every sub-buffer that
  \<^verbatim>\<open>_split_buffer\<close> returns has the action masks of a freshly created
  \<^verbatim>\<open>RolloutBuffer\<close>, that is none: the action masks of the source are not carried
  over.
\<close>

theorem split_buffer_drops_action_masks:
  "split_buffer b = Inr tb \<Longrightarrow> (t, sb) \<in> set tb \<Longrightarrow>
   action_masks sb = action_masks (RolloutBuffer :: ('v, 'a, 'f, 'm) rollout_buffer) \<and> action_masks sb = []"
proof -
  assume sp: "split_buffer b = Inr tb" and mem: "(t, sb) \<in> set tb"
  from sp obtain ls d where loop: "split_loop b ls (tasks_list ls) [] = Inr d" and tb: "tb = sorted_dict d"
    by (auto simp: split_buffer_def and_then_def split: sum.splits)
  from split_loop_masks[OF loop] have "\<forall>(t, sb)\<in>set d. action_masks sb = []" by simp
  with mem tb set_sorted_dict[of d] have "action_masks sb = []" by auto
  then show ?thesis by (simp add: RolloutBuffer_def)
qed

text \<open>
  The scenario buffer stores six action masks; the sub-buffer of task 3 stores none.
\<close>

theorem split_buffer_drops_action_masks_witness:
  "split_buffer scenario_buffer =
     Inr (map (\<lambda>t. (t, entries_at scenario_buffer (task_indices [3, 3, 5, 5, 5, 3] t)))
            (tasks_list [3, 3, 5, 5, 5, 3]))
   \<and> (3, entries_at scenario_buffer (task_indices [3, 3, 5, 5, 5, 3] 3))
       \<in> set (map (\<lambda>t. (t, entries_at scenario_buffer (task_indices [3, 3, 5, 5, 5, 3] t)))
               (tasks_list [3, 3, 5, 5, 5, 3]))
   \<and> length (action_masks scenario_buffer) = 6
   \<and> action_masks (entries_at scenario_buffer (task_indices [3, 3, 5, 5, 5, 3] 3)) = []"
proof -
  have h1: "aligned scenario_buffer" by (simp add: aligned_def scenario_buffer_def)
  have h0: "map (\<lambda>obs. obs ''v_net_size'') (observations scenario_buffer)
       = map (\<lambda>n. Some (IntVal n)) [3, 3, 5, 5, 5, 3]"
    by (simp add: scenario_buffer_def obs_of_size_def)
  note h2 = label_column(1)[OF h0] and h3 = label_column(2)[OF h0]
  have sp: "split_buffer scenario_buffer =
     Inr (map (\<lambda>t. (t, entries_at scenario_buffer (task_indices [3, 3, 5, 5, 5, 3] t)))
            (tasks_list [3, 3, 5, 5, 5, 3]))"
    by (rule split_buffer_explicit[OF h1 h2 h3])
  have mem: "(3, entries_at scenario_buffer (task_indices [3, 3, 5, 5, 5, 3] 3))
       \<in> set (map (\<lambda>t. (t, entries_at scenario_buffer (task_indices [3, 3, 5, 5, 5, 3] t)))
               (tasks_list [3, 3, 5, 5, 5, 3]))"
    by (simp add: set_tasks_list image_iff)
  have len: "length (action_masks scenario_buffer) = 6" by (simp add: scenario_buffer_def)
  from split_buffer_drops_action_masks[OF sp mem] sp mem len show ?thesis by blast
qed

section \<open>Properties of the observation batcher\<close>

lemma batch_loop_single:
  "batch_loop lib [PyDict ob] ([], [], [], [], []) =
     and_then (getitem ob ''p_net_x'') (\<lambda>x.
     and_then (getitem ob ''p_net_edge_index'') (\<lambda>e.
     and_then (get_pyg_data lib x e) (\<lambda>g.
     and_then (getitem ob ''v_net_x'') (\<lambda>vx.
     and_then (getitem ob ''v_net_size'') (\<lambda>vs.
     and_then (getitem ob ''curr_v_node_id'') (\<lambda>c.
     and_then (getitem ob ''action_mask'') (\<lambda>m.
     Inr ([g], [vx], [vs], [c], [m]))))))))"
  by simp

text \<open>
  Claim C6. For every observation and every device, \<^verbatim>\<open>obs_as_tensor(obs, device)\<close>
  and \<^verbatim>\<open>obs_as_tensor([obs], device)\<close> either both raise or both return a tensor
  batch, and then the two batches have the same fields with identical values (the two
  dictionary displays list the fields in a different order). This holds in particular for
  every well-formed observation, where no subscript raises.
\<close>

theorem single_equals_batch:
  "(isl (obs_as_tensor lib (PyDict ob) device) \<longleftrightarrow> isl (obs_as_tensor lib (PyList [PyDict ob]) device))
   \<and> (\<forall>r1 r2. obs_as_tensor lib (PyDict ob) device = Inr r1 \<longrightarrow>
        obs_as_tensor lib (PyList [PyDict ob]) device = Inr r2 \<longrightarrow>
        map_of r1 = map_of r2 \<and> set (map fst r1) = set (map fst r2))"
  apply (simp only: obs_as_tensor_def pyobj.case batch_loop_single)
  apply (auto simp: and_then_def getitem_def split: sum.splits option.splits)
  done

text \<open>A well-formed observation on which both paths return, with the same five fields.\<close>

theorem single_equals_batch_witness:
  "well_formed_obs example_obs
   \<and> obs_as_tensor example_lib (PyDict example_obs) ''cpu'' =
       Inr [(''p_net'', ''cpu'', [ArrVal 1, ArrVal 2]), (''v_net_x'', ''cpu'', [ArrVal 3]),
            (''curr_v_node_id'', ''cpu'', [IntVal 0]), (''action_mask'', ''cpu'', [ArrVal 4]),
            (''v_net_size'', ''cpu'', [IntVal 3])]
   \<and> obs_as_tensor example_lib (PyList [PyDict example_obs]) ''cpu'' =
       Inr [(''p_net'', ''cpu'', [ArrVal 1, ArrVal 2]), (''v_net_x'', ''cpu'', [ArrVal 3]),
            (''v_net_size'', ''cpu'', [IntVal 3]), (''curr_v_node_id'', ''cpu'', [IntVal 0]),
            (''action_mask'', ''cpu'', [ArrVal 4])]
   \<and> map_of [(''p_net'', ''cpu'', [ArrVal 1, ArrVal 2]), (''v_net_x'', ''cpu'', [ArrVal 3]),
            (''curr_v_node_id'', ''cpu'', [IntVal 0]), (''action_mask'', ''cpu'', [ArrVal 4]),
            (''v_net_size'', ''cpu'', [IntVal (3::int)])]
     = map_of [(''p_net'', ''cpu'', [ArrVal (1::nat), ArrVal 2]), (''v_net_x'', ''cpu'', [ArrVal 3]),
            (''v_net_size'', ''cpu'', [IntVal 3]), (''curr_v_node_id'', ''cpu'', [IntVal 0]),
            (''action_mask'', ''cpu'', [ArrVal 4])]"
proof -
  have wf: "well_formed_obs example_obs" by (simp add: well_formed_obs_def example_obs_def)
  have a: "obs_as_tensor example_lib (PyDict example_obs) ''cpu'' =
       Inr [(''p_net'', ''cpu'', [ArrVal 1, ArrVal 2]), (''v_net_x'', ''cpu'', [ArrVal 3]),
            (''curr_v_node_id'', ''cpu'', [IntVal 0]), (''action_mask'', ''cpu'', [ArrVal 4]),
            (''v_net_size'', ''cpu'', [IntVal 3])]"
    by (simp add: obs_as_tensor_def and_then_def getitem_def example_obs_def example_lib_def)
  have b: "obs_as_tensor example_lib (PyList [PyDict example_obs]) ''cpu'' =
       Inr [(''p_net'', ''cpu'', [ArrVal 1, ArrVal 2]), (''v_net_x'', ''cpu'', [ArrVal 3]),
            (''v_net_size'', ''cpu'', [IntVal 3]), (''curr_v_node_id'', ''cpu'', [IntVal 0]),
            (''action_mask'', ''cpu'', [ArrVal 4])]"
    by (simp add: obs_as_tensor_def and_then_def getitem_def example_obs_def example_lib_def)
  from single_equals_batch[of example_lib example_obs "''cpu''"] a b wf show ?thesis by blast
qed

lemma batch_loop_append:
  "batch_loop lib (xs @ ys) acc = and_then (batch_loop lib xs acc) (batch_loop lib ys)"
proof (induction xs arbitrary: acc)
  case Nil
  then show ?case by (simp add: and_then_def)
next
  case (Cons x xs)
  obtain a b c d e where acc: "acc = (a, b, c, d, e)" by (cases acc) auto
  show ?case unfolding acc using Cons.IH
    by (simp add: and_then_def split: sum.splits)
qed

lemma batch_loop_bad_element:
  "item bad ''p_net_x'' = Inl err \<Longrightarrow> batch_loop lib (bad # post) acc = Inl err"
  by (cases acc) (simp add: and_then_def)

text \<open>
  Claim C7, as the code has it. An argument whose type is neither dict nor list makes
  \<^verbatim>\<open>obs_as_tensor\<close> raise at once, before any subscript or library call: the exception
  is of the class \<^verbatim>\<open>Exception\<close>, with the message
  \<^verbatim>\<open>Unrecognized type of observation\<close> followed by the type of the argument, and no
  tensor batch is returned. A list always takes the batch branch, whatever its elements:
  when the records before an element have been read and the subscript on that element
  raises, the call raises that exception, not the one above.
\<close>

theorem unrecognized_type_fails:
  "obs_as_tensor lib (PyOther ty e) device
     = Inl (Exception (''Unrecognized type of observation '' @ ty))
   \<and> (batch_loop lib (map PyDict pre) ([], [], [], [], []) = Inr acc \<longrightarrow>
      item bad ''p_net_x'' = Inl err \<longrightarrow>
      obs_as_tensor lib (PyList (map PyDict pre @ bad # post)) device = Inl err)"
  by (simp add: obs_as_tensor_def batch_loop_append batch_loop_bad_element and_then_def)

text \<open>
  A tuple is refused with the message that names its type; the list of a record, the
  integer 3 and a record raises the TypeError of the subscript on 3.
\<close>

theorem unrecognized_type_fails_witness:
  "obs_as_tensor example_lib (PyOther ''<class 'tuple'>'' (TypeError ''tuple indices'')) ''cpu''
     = Inl (Exception ''Unrecognized type of observation <class 'tuple'>'')
   \<and> batch_loop example_lib (map PyDict [example_obs]) ([], [], [], [], [])
     = Inr ([(ArrVal 1, ArrVal 2)], [ArrVal 3], [IntVal 3], [IntVal 0], [ArrVal 4])
   \<and> item int_value ''p_net_x'' = Inl (TypeError ''int object is not subscriptable'')
   \<and> obs_as_tensor example_lib (PyList [PyDict example_obs, int_value, PyDict example_obs]) ''cpu''
     = Inl (TypeError ''int object is not subscriptable'')"
proof -
  have h1: "batch_loop example_lib (map PyDict [example_obs]) ([], [], [], [], [])
     = Inr ([(ArrVal 1, ArrVal 2)], [ArrVal 3], [IntVal 3], [IntVal 0], [ArrVal 4])"
    by (simp add: and_then_def getitem_def example_obs_def example_lib_def)
  have h2: "item int_value ''p_net_x'' = Inl (TypeError ''int object is not subscriptable'')"
    by (simp add: int_value_def)
  from unrecognized_type_fails
    [of example_lib "''<class 'tuple'>''" "TypeError ''tuple indices''" "''cpu''" "[example_obs]"
        "([(ArrVal 1, ArrVal 2)], [ArrVal 3], [IntVal 3], [IntVal 0], [ArrVal 4])" int_value
        "TypeError ''int object is not subscriptable''" "[PyDict example_obs]"]
    h1 h2
  show ?thesis by simp
qed

text \<open>
  Claim C7 as it is written does not hold on lists: a list that holds a numpy array, a
  list or a dictionary without the fields is neither a dictionary nor a list of
  observation records, and the call raises the exception of the first subscript
  (IndexError, a TypeError about list indices, KeyError), not an error that names the
  type of the argument.
\<close>

theorem unrecognized_type_counterexample:
  "obs_as_tensor example_lib (PyList [array_value]) ''cpu'' = Inl IndexError
   \<and> obs_as_tensor example_lib (PyList [PyList []]) ''cpu''
     = Inl (TypeError ''list indices must be integers or slices, not str'')
   \<and> obs_as_tensor example_lib (PyList [PyDict Map.empty]) ''cpu''
     = Inl (KeyError (StrKey ''p_net_x''))"
  by (simp add: obs_as_tensor_def and_then_def array_value_def getitem_def)

section \<open>Properties of the routing\<close>

text \<open>
  Claim C8. When the single-policy override is configured (its id is not 0) and no task
  policy exists for that id, \<^verbatim>\<open>solve\<close> raises KeyError for the id: the searcher's
  policy is not assigned, the meta-policy is not used, and no other task policy is used,
  whatever the size of the instance.
\<close>

theorem solve_override_missing_policy:
  assumes "infer_with_single_task_policy_id self \<noteq> 0"
    and "map_of (task_policies self) (infer_with_single_task_policy_id self) = None"
  shows "solve super_solve self inst =
           Inl (KeyError (IntKey (infer_with_single_task_policy_id self)))"
  using assms by (simp add: solve_def Let_def subscript_def and_then_def)

text \<open>
  The override is 5, the only task policy is the one of task 3, and the instance has
  three nodes: \<^verbatim>\<open>solve\<close> raises KeyError 5.
\<close>

theorem solve_override_missing_policy_witness:
  "infer_with_single_task_policy_id
       (example_agent\<lparr>task_policies := [(3, 9)], task_optimizers := [(3, 0)],
          infer_with_single_task_policy_id := 5\<rparr>) = 5
   \<and> map_of (task_policies (example_agent\<lparr>task_policies := [(3, 9)], task_optimizers := [(3, 0)],
          infer_with_single_task_policy_id := 5\<rparr>)) 5 = None
   \<and> num_nodes (v_net example_instance) = 3
   \<and> solve (\<lambda>s i. searcher_policy s)
        (example_agent\<lparr>task_policies := [(3, 9)], task_optimizers := [(3, 0)],
          infer_with_single_task_policy_id := 5\<rparr>) example_instance
       = Inl (KeyError (IntKey 5))"
  using solve_override_missing_policy
    [of "example_agent\<lparr>task_policies := [(3, 9)], task_optimizers := [(3, 0)],
          infer_with_single_task_policy_id := 5\<rparr>" "\<lambda>s i. searcher_policy s" example_instance]
  by (simp add: example_agent_def example_instance_def)

text \<open>
  Claim C9. The override is disabled exactly when its id is 0. With the id 0,
  \<^verbatim>\<open>solve\<close> routes by the size of the instance (the meta-policy when no task policy
  exists for the size, that task policy otherwise) and never raises; with any other id it
  takes the override path. Passing 0 for the override to the constructor gives the same
  agent as not passing it, so task 0 cannot be the target of an override.
\<close>

theorem override_disabled_iff_zero:
  "(infer_with_single_task_policy_id self = 0 \<longrightarrow>
      solve super_solve self inst =
        (let self1 = self\<lparr>searcher_policy :=
               (if map_of (task_policies self) (num_nodes (v_net inst)) = None then MetaPolicy
                else TaskPolicy (num_nodes (v_net inst)))\<rparr>
         in Inr (self1, super_solve self1 inst)))
   \<and> (infer_with_single_task_policy_id self \<noteq> 0 \<longrightarrow>
      solve super_solve self inst =
        (case map_of (task_policies self) (infer_with_single_task_policy_id self) of
           None \<Rightarrow> Inl (KeyError (IntKey (infer_with_single_task_policy_id self)))
         | Some p \<Rightarrow>
             (let self1 = self\<lparr>searcher_policy :=
                    TaskPolicy (infer_with_single_task_policy_id self)\<rparr>
              in Inr (self1, super_solve self1 inst))))
   \<and> init lib (kwargs(''infer_with_single_task_policy_id'' \<mapsto> 0)) base
       = init lib (kwargs(''infer_with_single_task_policy_id'' := None)) base
   \<and> infer_with_single_task_policy_id
        (init lib (kwargs(''infer_with_single_task_policy_id'' := None)) base) = 0"
  by (auto simp: solve_def Let_def subscript_def and_then_def init_def split: option.splits)

text \<open>
  An agent that has a policy for task 0 and the override 0 routes an instance of three
  nodes to the meta-policy; with the override 5 it raises.
\<close>

theorem override_disabled_iff_zero_witness:
  "infer_with_single_task_policy_id
      (init example_torch [''infer_with_single_task_policy_id'' \<mapsto> 0] example_agent) = 0
   \<and> solve (\<lambda>s i. searcher_policy s)
        (example_agent\<lparr>task_policies := [(0, 9)], task_optimizers := [(0, 0)],
           infer_with_single_task_policy_id := 0\<rparr>) example_instance
     = Inr (example_agent\<lparr>task_policies := [(0, 9)], task_optimizers := [(0, 0)],
              infer_with_single_task_policy_id := 0, searcher_policy := MetaPolicy\<rparr>, MetaPolicy)
   \<and> solve (\<lambda>s i. searcher_policy s)
        (example_agent\<lparr>task_policies := [(0, 9)], task_optimizers := [(0, 0)],
           infer_with_single_task_policy_id := 5\<rparr>) example_instance
     = Inl (KeyError (IntKey 5))"
  using override_disabled_iff_zero
    [of "example_agent\<lparr>task_policies := [(0, 9)], task_optimizers := [(0, 0)],
           infer_with_single_task_policy_id := 0\<rparr>" "\<lambda>s i. searcher_policy s" example_instance
        example_torch Map.empty example_agent]
    override_disabled_iff_zero
    [of "example_agent\<lparr>task_policies := [(0, 9)], task_optimizers := [(0, 0)],
           infer_with_single_task_policy_id := 5\<rparr>" "\<lambda>s i. searcher_policy s" example_instance
        example_torch Map.empty example_agent]
  by (simp add: example_agent_def example_instance_def Let_def init_def)

section \<open>Properties of the fine-tuning update\<close>







lemma init_fold_frame:
  "heap ((fold (\<lambda>task_id s. if map_of (task_policies s) task_id = None
       then init_task_policy_and_task_optimizer lib task_id s else s) ks s)) = heap s \<and> buffer ((fold (\<lambda>task_id s. if map_of (task_policies s) task_id = None
       then init_task_policy_and_task_optimizer lib task_id s else s) ks s)) = buffer s
   \<and> next_addr ((fold (\<lambda>task_id s. if map_of (task_policies s) task_id = None
       then init_task_policy_and_task_optimizer lib task_id s else s) ks s)) = next_addr s \<and> meta_policy ((fold (\<lambda>task_id s. if map_of (task_policies s) task_id = None
       then init_task_policy_and_task_optimizer lib task_id s else s) ks s)) = meta_policy s"
  by (induction ks arbitrary: s) (auto simp: init_task_policy_and_task_optimizer_def Let_def)

lemma init_fold_policies:
  "map_of (task_policies ((fold (\<lambda>task_id s. if map_of (task_policies s) task_id = None
       then init_task_policy_and_task_optimizer lib task_id s else s) ks s))) t =
     (if t \<in> set ks \<and> map_of (task_policies s) t = None then Some (meta_policy s)
      else map_of (task_policies s) t)"
proof (induction ks arbitrary: s)
  case Nil
  then show ?case by simp
next
  case (Cons k ks)
  show ?case
    by (simp add: Cons.IH init_task_policy_and_task_optimizer_def Let_def update_conv')
qed

lemma init_fold_optimizers:
  "map_of (task_optimizers ((fold (\<lambda>task_id s. if map_of (task_policies s) task_id = None
       then init_task_policy_and_task_optimizer lib task_id s else s) ks s))) t =
     (if t \<in> set ks \<and> map_of (task_policies s) t = None then Some (Adam lib (meta_policy s))
      else map_of (task_optimizers s) t)"
proof (induction ks arbitrary: s)
  case Nil
  then show ?case by simp
next
  case (Cons k ks)
  show ?case
    by (auto simp: Cons.IH init_task_policy_and_task_optimizer_def Let_def update_conv')
qed

lemma store_task_buffers_props:
  "store_task_buffers tbs s = (s', refs) \<Longrightarrow>
     map (\<lambda>(t, a). (t, heap s' a)) refs = tbs
   \<and> (\<forall>a\<in>snd ` set refs. next_addr s \<le> a)
   \<and> distinct (map snd refs)
   \<and> (\<forall>a. a < next_addr s \<longrightarrow> heap s' a = heap s a)
   \<and> task_policies s' = task_policies s \<and> task_optimizers s' = task_optimizers s
   \<and> buffer s' = buffer s"
proof (induction tbs arbitrary: s s' refs)
  case Nil
  then show ?case by simp
next
  case (Cons x tbs)
  obtain t b where x: "x = (t, b)" by (cases x)
  let ?s1 = "s\<lparr>heap := (heap s)(next_addr s := b), next_addr := Suc (next_addr s)\<rparr>"
  obtain s2 r2 where rec: "store_task_buffers tbs ?s1 = (s2, r2)"
    by (cases "store_task_buffers tbs ?s1")
  from Cons.prems x rec have eq: "s' = s2" "refs = (t, next_addr s) # r2" by (simp_all add: Let_def)
  note IH = Cons.IH[OF rec]
  from IH have fresh: "\<forall>a\<in>snd ` set r2. Suc (next_addr s) \<le> a" by simp
  then have notin: "next_addr s \<notin> snd ` set r2" by auto
  from IH have here: "heap s2 (next_addr s) = b" by simp
  from IH have below: "\<forall>a. a < next_addr s \<longrightarrow> heap s2 a = heap s a" by simp
  have 1: "map (\<lambda>(t, a). (t, heap s' a)) refs = x # tbs" using IH eq x here by simp
  have 2: "\<forall>a\<in>snd ` set refs. next_addr s \<le> a" using fresh eq by auto
  have 3: "distinct (map snd refs)" using IH notin eq by simp
  from 1 2 3 below IH eq show ?case by simp
qed

lemma sorted_split_at:
  "sorted_wrt (<) (xs :: int list) \<Longrightarrow> t \<in> set xs \<Longrightarrow>
   xs = filter (\<lambda>x. x < t) xs @ t # filter (\<lambda>x. t < x) xs"
proof (induction xs)
  case Nil
  then show ?case by simp
next
  case (Cons x xs)
  show ?case
  proof (cases "x = t")
    case True
    with Cons.prems(1) have "\<forall>y\<in>set xs. t < y" by simp
    then have "filter (\<lambda>x. x < t) xs = []" "filter (\<lambda>x. t < x) xs = xs"
      by (auto simp: filter_empty_conv filter_id_conv)
    with True show ?thesis by simp
  next
    case False
    with Cons.prems have t: "t \<in> set xs" and "x < t" by auto
    with Cons.IH Cons.prems(1) show ?thesis by auto
  qed
qed

lemma loop_fails_at:
  assumes d1: "distinct (map fst (pre @ [(t, a)]))"
    and d2: "distinct (map snd (pre @ [(t, a)]))"
    and ok: "\<forall>(t', a')\<in>set pre. \<exists>p opt. map_of (task_policies s) t' = Some p
              \<and> map_of (task_optimizers s) t' = Some opt \<and> snd (su p opt (heap s a')) = None"
    and bad: "map_of (task_policies s) t = Some p" "map_of (task_optimizers s) t = Some opt"
      "snd (su p opt (heap s a)) = Some e"
  shows "\<exists>s'. fine_tuning_loop su (pre @ (t, a) # post) s = Inl (e, s')
     \<and> policy s' = TaskPolicy t \<and> buffer s' = a
     \<and> heap s' a = snd (snd (fst (su p opt (heap s a))))
     \<and> (\<forall>k. k \<notin> fst ` set pre \<and> k \<noteq> t \<longrightarrow>
           map_of (task_policies s') k = map_of (task_policies s) k
         \<and> map_of (task_optimizers s') k = map_of (task_optimizers s) k)
     \<and> (\<forall>x. x \<notin> snd ` set pre \<and> x \<noteq> a \<longrightarrow> heap s' x = heap s x)"
  using assms
proof (induction pre arbitrary: s)
  case Nil
  obtain p' opt' b' where r: "su p opt (heap s a) = ((p', opt', b'), Some e)"
    using Nil.prems(6) by (metis prod.exhaust snd_conv)
  show ?case using Nil.prems(4,5) r
    by (simp add: attempt_def subscript_def Let_def update_conv')
next
  case (Cons x pre)
  obtain t1 a1 where x: "x = (t1, a1)" by (cases x)
  from Cons.prems(3) x obtain p1 o1 where p1: "map_of (task_policies s) t1 = Some p1"
    and o1: "map_of (task_optimizers s) t1 = Some o1" and s1: "snd (su p1 o1 (heap s a1)) = None"
    by auto
  obtain p1' o1' b1' where r: "su p1 o1 (heap s a1) = ((p1', o1', b1'), None)"
    using s1 by (metis prod.exhaust snd_conv)
  let ?s3 = "s\<lparr>policy := TaskPolicy t1, optimizer := TaskOptimizer t1, buffer := a1,
       task_policies := AList.update t1 p1' (task_policies s),
       task_optimizers := AList.update t1 o1' (task_optimizers s),
       heap := (heap s)(a1 := b1')\<rparr>"
  have step: "fine_tuning_loop su ((x # pre) @ (t, a) # post) s = fine_tuning_loop su (pre @ (t, a) # post) ?s3"
    using x p1 o1 r by (simp add: attempt_def subscript_def Let_def)
  have ne: "t \<noteq> t1" "a \<noteq> a1" "t1 \<notin> fst ` set pre" "a1 \<notin> snd ` set pre"
    using Cons.prems(1,2) x by auto
  have d1': "distinct (map fst (pre @ [(t, a)]))" and d2': "distinct (map snd (pre @ [(t, a)]))"
    using Cons.prems(1,2) by simp_all
  have ok': "\<forall>(t', a')\<in>set pre. \<exists>p opt. map_of (task_policies ?s3) t' = Some p
              \<and> map_of (task_optimizers ?s3) t' = Some opt \<and> snd (su p opt (heap ?s3 a')) = None"
  proof (clarify)
    fix t' a' assume m: "(t', a') \<in> set pre"
    then have "t' \<noteq> t1" "a' \<noteq> a1" using ne(3,4) by force+
    moreover from Cons.prems(3) m obtain q r where "map_of (task_policies s) t' = Some q"
      "map_of (task_optimizers s) t' = Some r" "snd (su q r (heap s a')) = None" by fastforce
    ultimately show "\<exists>p opt. map_of (task_policies ?s3) t' = Some p
              \<and> map_of (task_optimizers ?s3) t' = Some opt \<and> snd (su p opt (heap ?s3 a')) = None"
      by (simp add: update_conv')
  qed
  have bad': "map_of (task_policies ?s3) t = Some p" "map_of (task_optimizers ?s3) t = Some opt"
      "snd (su p opt (heap ?s3 a)) = Some e"
    using Cons.prems(4,5,6) ne by (simp_all add: update_conv')
  from Cons.IH[OF d1' d2' ok' bad'] obtain s' where
    res: "fine_tuning_loop su (pre @ (t, a) # post) ?s3 = Inl (e, s')"
    and pol: "policy s' = TaskPolicy t" "buffer s' = a"
    and act: "heap s' a = snd (snd (fst (su p opt (heap ?s3 a))))"
    and fr1: "\<forall>k. k \<notin> fst ` set pre \<and> k \<noteq> t \<longrightarrow>
           map_of (task_policies s') k = map_of (task_policies ?s3) k
         \<and> map_of (task_optimizers s') k = map_of (task_optimizers ?s3) k"
    and fr2: "\<forall>x. x \<notin> snd ` set pre \<and> x \<noteq> a \<longrightarrow> heap s' x = heap ?s3 x"
    by blast
  have fr1': "\<forall>k. k \<notin> fst ` set (x # pre) \<and> k \<noteq> t \<longrightarrow>
           map_of (task_policies s') k = map_of (task_policies s) k
         \<and> map_of (task_optimizers s') k = map_of (task_optimizers s) k"
    using fr1 x by (simp add: update_conv')
  have fr2': "\<forall>y. y \<notin> snd ` set (x # pre) \<and> y \<noteq> a \<longrightarrow> heap s' y = heap s y"
    using fr2 x by simp
  have act': "heap s' a = snd (snd (fst (su p opt (heap s a))))"
    using act ne by simp
  from step res pol act' fr1' fr2' show ?case by simp
qed

lemma stats_task_dist_labels:
  assumes "map (\<lambda>obs. obs ''v_net_size'') (observations b) = map (\<lambda>n. Some (IntVal n)) ls"
  shows "stats_task_dist b = Inr (map (\<lambda>k. (k, count_list ls k)) (rev (remdups (rev ls))))"
  using comprehension_labels[OF label_column(1)[OF assms] label_column(2)[OF assms]]
  by (simp add: stats_task_dist_def and_then_def hashable_ints)

lemma map_fst_split:
  assumes "map fst refs = A @ t # B"
  shows "\<exists>pre a post. refs = pre @ (t, a) # post \<and> map fst pre = A \<and> map fst post = B"
proof -
  from assms obtain pre r where 1: "refs = pre @ r" "map fst pre = A" "map fst r = t # B"
    by (auto simp: map_eq_append_conv)
  from 1(3) obtain x post where 2: "r = x # post" "fst x = t" "map fst post = B"
    by (auto simp: map_eq_Cons_conv)
  obtain a where "x = (t, a)" using 2(2) by (cases x) auto
  with 1 2 show ?thesis by blast
qed

lemma update_unfold:
  assumes "stats_task_dist (heap self (buffer self)) = Inr td"
    and "self1 = fold (\<lambda>task_id s. if map_of (task_policies s) task_id = None
       then init_task_policy_and_task_optimizer lib task_id s else s) (map fst td) self"
    and "split_buffer (heap self1 (buffer self1)) = Inr tbs"
    and "store_task_buffers tbs self1 = (self2, refs)"
  shows "update lib su self =
     (case fine_tuning_loop su refs self2 of
        Inl raised \<Rightarrow> Inl raised
      | Inr self3 \<Rightarrow>
          Inr (self3\<lparr>heap := (heap self3)(buffer self := clear (heap self3 (buffer self)))\<rparr>))"
  using assms by (simp add: update_def fine_tuning_update_def attempt_def Let_def)

text \<open>
  Claim C3, as the code has it. Let the buffer be index-aligned with the labels \<open>ls\<close>,
  and let the generic update raise \<open>e\<close> on the triple of task \<open>t\<close> after returning for
  every smaller task id. Then \<^verbatim>\<open>update()\<close> raises \<open>e\<close>; the original buffer object
  still holds what it held at the call (it is not cleared); \<^verbatim>\<open>self.buffer\<close> no longer
  refers to it but to the sub-buffer of \<open>t\<close>, as the generic update left it; the active
  policy is the one of \<open>t\<close>; and every later task id of the sorted order is left
  unprocessed: its policy and optimizer are those the generic update would have
  received.
\<close>

theorem update_fails_fast:
  assumes wf: "buffer self < next_addr self"
    and al: "aligned (heap self (buffer self))"
    and labels: "map (\<lambda>obs. obs ''v_net_size'') (observations (heap self (buffer self)))
                 = map (\<lambda>n. Some (IntVal n)) ls"
    and t: "t \<in> set ls"
    and before: "\<forall>t'\<in>set ls. t' < t \<longrightarrow>
        (\<exists>opt'. optimizer_for_update lib self t' = Some opt'
           \<and> snd (su (policy_for_update self t') opt'
                  (entries_at (heap self (buffer self)) (task_indices ls t'))) = None)"
    and opt: "optimizer_for_update lib self t = Some opt"
    and fails: "snd (su (policy_for_update self t) opt
                  (entries_at (heap self (buffer self)) (task_indices ls t))) = Some e"
  shows "\<exists>self'. update lib su self = Inl (e, self')
     \<and> heap self' (buffer self) = heap self (buffer self)
     \<and> policy self' = TaskPolicy t \<and> buffer self' \<noteq> buffer self
     \<and> heap self' (buffer self')
         = snd (snd (fst (su (policy_for_update self t) opt
                  (entries_at (heap self (buffer self)) (task_indices ls t)))))
     \<and> (\<forall>t'\<in>set ls. t < t' \<longrightarrow>
           map_of (task_policies self') t' = Some (policy_for_update self t')
         \<and> map_of (task_optimizers self') t' = optimizer_for_update lib self t')"
proof -
  let ?b = "heap self (buffer self)"
  let ?td = "map (\<lambda>k. (k, count_list ls k)) (rev (remdups (rev ls)))"
  let ?ks = "map fst ?td"
  have ks: "set ?ks = set ls" by (simp add: comp_def)
  have stats: "stats_task_dist ?b = Inr ?td" by (rule stats_task_dist_labels[OF labels])
  define self1 where "self1 = fold (\<lambda>task_id s. if map_of (task_policies s) task_id = None
       then init_task_policy_and_task_optimizer lib task_id s else s) ?ks self"
  have fr1: "heap self1 = heap self" "buffer self1 = buffer self" "next_addr self1 = next_addr self"
    unfolding self1_def using init_fold_frame[of lib ?ks self] by simp_all
  have pol1: "map_of (task_policies self1) k = Some (policy_for_update self k)" if "k \<in> set ls" for k
    unfolding self1_def init_fold_policies using that ks
    by (auto simp: policy_for_update_def split: option.splits)
  have opt1: "map_of (task_optimizers self1) k = optimizer_for_update lib self k" if "k \<in> set ls" for k
    unfolding self1_def init_fold_optimizers using that ks
    by (auto simp: optimizer_for_update_def split: option.splits)
  let ?tbs = "map (\<lambda>t. (t, entries_at ?b (task_indices ls t))) (tasks_list ls)"
  have split: "split_buffer (heap self1 (buffer self1)) = Inr ?tbs"
    unfolding fr1 by (rule split_buffer_explicit[OF al label_column(1)[OF labels] label_column(2)[OF labels]])
  obtain self2 refs where st: "store_task_buffers ?tbs self1 = (self2, refs)"
    by (cases "store_task_buffers ?tbs self1")
  note sp = store_task_buffers_props[OF st]
  from sp have content: "map (\<lambda>(t, a). (t, heap self2 a)) refs = ?tbs" by simp
  from sp have fresh: "\<forall>a\<in>snd ` set refs. next_addr self \<le> a" by (simp add: fr1)
  from sp have dsnd: "distinct (map snd refs)" by simp
  from sp have below: "\<forall>a. a < next_addr self \<longrightarrow> heap self2 a = heap self a" by (simp add: fr1)
  from sp have same: "task_policies self2 = task_policies self1" "task_optimizers self2 = task_optimizers self1"
    by simp_all
  have "map fst (map (\<lambda>(t, a). (t, heap self2 a)) refs) = map fst ?tbs" using content by simp
  then have keys: "map fst refs = tasks_list ls" by (simp add: comp_def case_prod_unfold)
  have tin: "t \<in> set (tasks_list ls)" using t by (simp add: set_tasks_list)
  let ?A = "filter (\<lambda>x. x < t) (tasks_list ls)" and ?B = "filter (\<lambda>x. t < x) (tasks_list ls)"
  have spl: "tasks_list ls = ?A @ t # ?B" by (rule sorted_split_at[OF tasks_list_ascending tin])
  from map_fst_split[of refs ?A t ?B] keys spl obtain pre a post where
    refs: "refs = pre @ (t, a) # post" and pre: "map fst pre = ?A" and post: "map fst post = ?B"
    by metis
  have heap_of: "heap self2 a' = entries_at ?b (task_indices ls t')" if "(t', a') \<in> set refs" for t' a'
  proof -
    from that have "(t', heap self2 a') \<in> set (map (\<lambda>(t, a). (t, heap self2 a)) refs)" by force
    then show ?thesis unfolding content by auto
  qed
  have d1: "distinct (map fst (pre @ [(t, a)]))"
  proof -
    have "distinct (map fst refs)" unfolding keys by (simp add: tasks_list_def)
    then show ?thesis unfolding refs by simp
  qed
  have d2: "distinct (map snd (pre @ [(t, a)]))" using dsnd unfolding refs by simp
  have ok: "\<forall>(t', a')\<in>set pre. \<exists>p opt. map_of (task_policies self2) t' = Some p
              \<and> map_of (task_optimizers self2) t' = Some opt \<and> snd (su p opt (heap self2 a')) = None"
  proof (clarify)
    fix t' a' assume m: "(t', a') \<in> set pre"
    then have "t' \<in> set (map fst pre)" by force
    then have lt: "t' < t" and inl: "t' \<in> set ls" unfolding pre by (simp_all add: set_tasks_list)
    from before inl lt obtain opt' where o: "optimizer_for_update lib self t' = Some opt'"
      and s: "snd (su (policy_for_update self t') opt' (entries_at ?b (task_indices ls t'))) = None"
      by blast
    have h: "heap self2 a' = entries_at ?b (task_indices ls t')" using heap_of[of t' a'] m refs by simp
    show "\<exists>p opt. map_of (task_policies self2) t' = Some p
              \<and> map_of (task_optimizers self2) t' = Some opt \<and> snd (su p opt (heap self2 a')) = None"
      using pol1[OF inl] opt1[OF inl] o s h same by simp
  qed
  have h: "heap self2 a = entries_at ?b (task_indices ls t)" using heap_of[of t a] refs by simp
  have bad: "map_of (task_policies self2) t = Some (policy_for_update self t)"
    "map_of (task_optimizers self2) t = Some opt"
    "snd (su (policy_for_update self t) opt (heap self2 a)) = Some e"
    using pol1[OF t] opt1[OF t] opt fails h same by simp_all
  from loop_fails_at[OF d1 d2 ok bad, of post] obtain s' where
    res: "fine_tuning_loop su refs self2 = Inl (e, s')"
    and pol: "policy s' = TaskPolicy t" and buf: "buffer s' = a"
    and act: "heap s' a = snd (snd (fst (su (policy_for_update self t) opt (heap self2 a))))"
    and frp: "\<forall>k. k \<notin> fst ` set pre \<and> k \<noteq> t \<longrightarrow>
           map_of (task_policies s') k = map_of (task_policies self2) k
         \<and> map_of (task_optimizers s') k = map_of (task_optimizers self2) k"
    and frh: "\<forall>x. x \<notin> snd ` set pre \<and> x \<noteq> a \<longrightarrow> heap s' x = heap self2 x"
    unfolding refs by blast
  have upd: "update lib su self = Inl (e, s')"
    using update_unfold[OF stats self1_def split st, of su] res by simp
  have meta: "heap s' (buffer self) = heap self (buffer self)"
  proof -
    have "buffer self \<notin> snd ` set refs" using fresh wf by auto
    then have "buffer self \<notin> snd ` set pre" "buffer self \<noteq> a" unfolding refs by auto
    with frh have "heap s' (buffer self) = heap self2 (buffer self)" by simp
    with below wf show ?thesis by simp
  qed
  have later: "\<forall>t'\<in>set ls. t < t' \<longrightarrow>
           map_of (task_policies s') t' = Some (policy_for_update self t')
         \<and> map_of (task_optimizers s') t' = optimizer_for_update lib self t'"
  proof (intro ballI impI)
    fix t' assume inl: "t' \<in> set ls" and gt: "t < t'"
    have "t' \<notin> set (map fst pre)" unfolding pre using gt by simp
    then have "t' \<notin> fst ` set pre" by simp
    with frp gt have "map_of (task_policies s') t' = map_of (task_policies self2) t'"
      "map_of (task_optimizers s') t' = map_of (task_optimizers self2) t'" by auto
    then show "map_of (task_policies s') t' = Some (policy_for_update self t')
         \<and> map_of (task_optimizers s') t' = optimizer_for_update lib self t'"
      using pol1[OF inl] opt1[OF inl] same by simp
  qed
  have moved: "buffer s' \<noteq> buffer self"
  proof -
    have "a \<in> snd ` set refs" unfolding refs by force
    with fresh wf buf show ?thesis by auto
  qed
  have active: "heap s' (buffer s')
         = snd (snd (fst (su (policy_for_update self t) opt
                  (entries_at (heap self (buffer self)) (task_indices ls t)))))"
    using act buf h by simp
  from upd meta pol moved active later show ?thesis by blast
qed

text \<open>
  The generic update raises on the sub-buffer of task 3: the update of the example agent
  raises, the six steps are still in the original buffer, \<^verbatim>\<open>self.buffer\<close> refers to
  the three steps of task 3, and the policy and optimizer of task 5 are the fresh copies.
\<close>

theorem update_fails_fast_witness:
  "buffer example_agent < next_addr example_agent
   \<and> aligned (heap example_agent (buffer example_agent))
   \<and> map (\<lambda>obs. obs ''v_net_size'') (observations (heap example_agent (buffer example_agent)))
       = map (\<lambda>n. Some (IntVal n)) [3, 3, 5, 5, 5, 3]
   \<and> optimizer_for_update example_torch example_agent 3 = Some 0
   \<and> snd (failing_update (policy_for_update example_agent 3) 0
            (entries_at (heap example_agent (buffer example_agent))
               (task_indices [3, 3, 5, 5, 5, 3] 3))) = Some (RuntimeError ''nan'')
   \<and> (\<exists>self'. update example_torch failing_update example_agent = Inl (RuntimeError ''nan'', self')
        \<and> heap self' (buffer example_agent) = scenario_buffer
        \<and> policy self' = TaskPolicy 3 \<and> buffer self' \<noteq> buffer example_agent
        \<and> actions (heap self' (buffer self')) = [10, 11, 15]
        \<and> map_of (task_policies self') 5 = Some 7
        \<and> map_of (task_optimizers self') 5 = Some 0)"
proof -
  have wf: "buffer example_agent < next_addr example_agent" by (simp add: example_agent_def)
  have al: "aligned (heap example_agent (buffer example_agent))"
    by (simp add: example_agent_def aligned_def scenario_buffer_def)
  have labels: "map (\<lambda>obs. obs ''v_net_size'') (observations (heap example_agent (buffer example_agent)))
       = map (\<lambda>n. Some (IntVal n)) [3, 3, 5, 5, 5, 3]"
    by (simp add: example_agent_def scenario_buffer_def obs_of_size_def)
  have t: "(3::int) \<in> set [3, 3, 5, 5, 5, 3]" by simp
  have before: "\<forall>t'\<in>set [3, 3, 5, 5, 5, 3 :: int]. t' < 3 \<longrightarrow>
        (\<exists>opt'. optimizer_for_update example_torch example_agent t' = Some opt'
           \<and> snd (failing_update (policy_for_update example_agent t') opt'
                  (entries_at (heap example_agent (buffer example_agent))
                     (task_indices [3, 3, 5, 5, 5, 3] t'))) = None)"
    by simp
  have opt: "optimizer_for_update example_torch example_agent 3 = Some 0"
    by (simp add: optimizer_for_update_def example_agent_def example_torch_def)
  have ti: "task_indices [3, 3, 5, 5, 5, 3] 3 = [0, 1, 5]"
    by (simp add: task_indices_def upt_rec nth_Cons')
  have fails: "snd (failing_update (policy_for_update example_agent 3) 0
            (entries_at (heap example_agent (buffer example_agent))
               (task_indices [3, 3, 5, 5, 5, 3] 3))) = Some (RuntimeError ''nan'')"
    unfolding ti by (simp add: failing_update_def entries_at_def example_agent_def scenario_buffer_def)
  have "\<exists>self'. update example_torch failing_update example_agent = Inl (RuntimeError ''nan'', self')
        \<and> heap self' (buffer example_agent) = scenario_buffer
        \<and> policy self' = TaskPolicy 3 \<and> buffer self' \<noteq> buffer example_agent
        \<and> actions (heap self' (buffer self')) = [10, 11, 15]
        \<and> map_of (task_policies self') 5 = Some 7
        \<and> map_of (task_optimizers self') 5 = Some 0"
    using update_fails_fast[OF wf al labels t before opt fails]
    apply (elim exE conjE)
    subgoal premises p for self'
    proof -
      have a: "actions (heap self' (buffer self')) = [10, 11, 15]"
        using p(5) by (simp add: ti failing_update_def entries_at_def example_agent_def
            scenario_buffer_def policy_for_update_def)
      have b: "heap self' (buffer example_agent) = scenario_buffer"
        using p(2) by (simp add: example_agent_def)
      have c: "map_of (task_policies self') 5 = Some 7" "map_of (task_optimizers self') 5 = Some 0"
        using p(6) by (simp_all add: policy_for_update_def optimizer_for_update_def
            example_agent_def example_torch_def)
      show ?thesis using p(1,3,4) a b c by blast
    qed
    done
  with wf al labels opt fails show ?thesis by blast
qed

text \<open>
  Claim C3 as it is written says that the contents of the original buffer remain available
  to the caller. After the failed update of the example agent, \<^verbatim>\<open>self.buffer\<close> is
  another object than before and holds the three steps of task 3 only (the actions 10, 11
  and 15), where the original buffer held six: what the agent still refers to is not the
  collected experience, and the steps of task 5 can no longer be reached through it.
\<close>

theorem update_fails_fast_counterexample:
  "(case update example_torch failing_update example_agent of
      Inl (e, self') \<Rightarrow>
        e = RuntimeError ''nan'' \<and> buffer self' \<noteq> buffer example_agent
        \<and> actions (heap self' (buffer self')) = [10, 11, 15]
    | Inr self' \<Rightarrow> False)
   \<and> actions (heap example_agent (buffer example_agent)) = [10, 11, 12, 13, 14, 15]"
  by code_simp

section \<open>Properties of the checkpoints\<close>

text \<open>
  \<^verbatim>\<open>load_model\<close> never raises, and a file that cannot be read leaves the agent as it
  was.
\<close>

lemma load_model_never_raises: "\<exists>self'. load_model lib self checkpoint_path fs = Inr self'"
  by (auto simp: load_model_def split: sum.splits)

lemma load_model_unreadable_file:
  "torch_load fs checkpoint_path = Inl e \<Longrightarrow> load_model lib self checkpoint_path fs = Inr self"
  by (simp add: load_model_def load_model_try_def attempt_def)

text \<open>
  Claim C4 says that a load that fails at any point leaves every policy and optimizer at
  its value from before the call. On an archive that holds the meta entry but lacks the key
  \<^verbatim>\<open>'task_policies'\<close>, the \<^verbatim>\<open>try\<close> block raises KeyError after it has restored
  the meta-policy and the meta-optimizer: \<^verbatim>\<open>load_model\<close> returns without raising,
  with the meta-policy 42 and the meta-optimizer 1 of the archive in place of the 7 and 0
  the agent held.
\<close>

theorem load_model_partial_restore:
  "load_model_try example_torch example_agent ''ckpt.pt'' truncated_fs
     = Inl (KeyError (StrKey ''task_policies''), example_agent\<lparr>meta_policy := 42, meta_optimizer := 1\<rparr>)
   \<and> load_model example_torch example_agent ''ckpt.pt'' truncated_fs
     = Inr (example_agent\<lparr>meta_policy := 42, meta_optimizer := 1\<rparr>)
   \<and> meta_policy example_agent = 7 \<and> meta_optimizer example_agent = 0"
  by (simp add: load_model_def load_model_try_def attempt_def torch_load_def truncated_fs_def
      key_of_def example_torch_def example_agent_def)

lemma comprehension_map:
  "(\<And>x. x \<in> set xs \<Longrightarrow> f x = Inr (g x)) \<Longrightarrow> comprehension f xs = Inr (map g xs)"
  by (induction xs) auto

lemma comprehension_Inr_all:
  "comprehension f xs = Inr ys \<Longrightarrow> x \<in> set xs \<Longrightarrow> \<exists>y. f x = Inr y"
  by (induction xs arbitrary: ys) (auto split: sum.splits)

lemma fold_update_map_of:
  "map_of (fold (\<lambda>t d. AList.update t (F t) d) ks d0) k =
     (if k \<in> set ks then Some (F k) else map_of d0 k)"
  by (induction ks arbitrary: d0) (auto simp: update_conv')

lemma fold_update_keys:
  "fst ` set (fold (\<lambda>t d. AList.update t (F t) d) ks d0) = set ks \<union> fst ` set d0"
  by (induction ks arbitrary: d0) (auto simp: dom_update)

lemma paired_iff:
  "paired s \<longleftrightarrow> (\<forall>t. map_of (task_policies s) t \<noteq> None \<longrightarrow> map_of (task_optimizers s) t \<noteq> None)"
  by (auto simp: paired_def list_all_iff map_of_eq_None_iff)

lemma fold_update_distinct:
  "distinct (map fst d0) \<Longrightarrow> distinct (map fst (fold (\<lambda>t d. AList.update t (F t) d) ks d0))"
  by (induction ks arbitrary: d0) (auto simp: distinct_update)

lemma load_task_general:
  assumes H1: "\<forall>p q. \<exists>r. policy_load_state_dict lib p (policy_state_dict lib q) = Inr r"
    and H2: "\<forall>opt r. \<exists>u. optimizer_load_state_dict lib opt (optimizer_state_dict lib r) = Inr u"
    and inv: "paired s"
    and entry: "map_of tasks k = Some \<lparr>saved_policy = Some (policy_state_dict lib P),
                  saved_optimizer = Some (optimizer_state_dict lib Q)\<rparr>"
  shows "\<exists>s' p' tgt opt'. load_task lib tasks k s = Inr s'
     \<and> policy_load_state_dict lib (policy_for_update s k) (policy_state_dict lib P) = Inr p'
     \<and> optimizer_for_update lib s k = Some tgt
     \<and> optimizer_load_state_dict lib tgt (optimizer_state_dict lib Q) = Inr opt'
     \<and> map_of (task_policies s') = (map_of (task_policies s))(k \<mapsto> p')
     \<and> map_of (task_optimizers s') = (map_of (task_optimizers s))(k \<mapsto> opt')
     \<and> meta_policy s' = meta_policy s \<and> meta_optimizer s' = meta_optimizer s \<and> paired s'"
proof (cases "map_of (task_policies s) k")
  case None
  from H1 obtain p' where p': "policy_load_state_dict lib (meta_policy s) (policy_state_dict lib P) = Inr p'"
    by blast
  from H2 obtain opt' where o': "optimizer_load_state_dict lib (Adam lib (meta_policy s)) (optimizer_state_dict lib Q) = Inr opt'"
    by blast
  let ?s' = "s\<lparr>task_policies := AList.update k p' (AList.update k (meta_policy s) (task_policies s)),
             task_optimizers := AList.update k opt' (AList.update k (Adam lib (meta_policy s)) (task_optimizers s))\<rparr>"
  have run: "load_task lib tasks k s = Inr ?s'"
    using None p' o' entry
    by (simp add: load_task_def Let_def attempt_def subscript_def key_of_def update_conv'
        init_task_policy_and_task_optimizer_def)
  have pr: "paired ?s'" using inv by (auto simp: paired_iff update_conv')
  show ?thesis
    apply (rule exI[of _ ?s'], rule exI[of _ p'], rule exI[of _ "Adam lib (meta_policy s)"], rule exI[of _ opt'])
    using run p' o' None pr
    by (simp add: policy_for_update_def optimizer_for_update_def update_conv')
next
  case (Some q)
  with inv obtain opt where o: "map_of (task_optimizers s) k = Some opt" by (auto simp: paired_iff)
  from H1 obtain p' where p': "policy_load_state_dict lib q (policy_state_dict lib P) = Inr p'"
    by blast
  from H2 obtain opt' where o': "optimizer_load_state_dict lib opt (optimizer_state_dict lib Q) = Inr opt'"
    by blast
  let ?s' = "s\<lparr>task_policies := AList.update k p' (task_policies s),
             task_optimizers := AList.update k opt' (task_optimizers s)\<rparr>"
  have run: "load_task lib tasks k s = Inr ?s'"
    using Some o p' o' entry
    by (simp add: load_task_def Let_def attempt_def subscript_def key_of_def update_conv')
  have pr: "paired ?s'" using inv by (auto simp: paired_iff update_conv')
  show ?thesis
    apply (rule exI[of _ ?s'], rule exI[of _ p'], rule exI[of _ opt], rule exI[of _ opt'])
    using run p' o' Some o pr
    by (simp add: policy_for_update_def optimizer_for_update_def update_conv')
qed

lemma load_loop_general:
  assumes H1: "\<forall>p q. \<exists>r. policy_load_state_dict lib p (policy_state_dict lib q) = Inr r"
    and H2: "\<forall>opt r. \<exists>u. optimizer_load_state_dict lib opt (optimizer_state_dict lib r) = Inr u"
  shows "paired s \<Longrightarrow> distinct ks \<Longrightarrow>
     (\<forall>k\<in>set ks. map_of tasks k = Some \<lparr>saved_policy = Some (policy_state_dict lib (P k)),
                  saved_optimizer = Some (optimizer_state_dict lib (Q k))\<rparr>) \<Longrightarrow>
     \<exists>s'. load_loop lib tasks ks s = Inr s'
     \<and> meta_policy s' = meta_policy s \<and> meta_optimizer s' = meta_optimizer s
     \<and> (\<forall>k. k \<notin> set ks \<longrightarrow> map_of (task_policies s') k = map_of (task_policies s) k
           \<and> map_of (task_optimizers s') k = map_of (task_optimizers s) k)
     \<and> (\<forall>k\<in>set ks. \<exists>p' tgt opt'.
           policy_load_state_dict lib (policy_for_update s k) (policy_state_dict lib (P k)) = Inr p'
         \<and> optimizer_for_update lib s k = Some tgt
         \<and> optimizer_load_state_dict lib tgt (optimizer_state_dict lib (Q k)) = Inr opt'
         \<and> map_of (task_policies s') k = Some p' \<and> map_of (task_optimizers s') k = Some opt')"
proof (induction ks arbitrary: s)
  case Nil
  then show ?case by simp
next
  case (Cons k ks)
  from Cons.prems(3) have e: "map_of tasks k = Some \<lparr>saved_policy = Some (policy_state_dict lib (P k)),
                  saved_optimizer = Some (optimizer_state_dict lib (Q k))\<rparr>" by simp
  from load_task_general[OF H1 H2 Cons.prems(1) e] obtain s1 p' tgt opt' where
    s1: "load_task lib tasks k s = Inr s1"
    and lp: "policy_load_state_dict lib (policy_for_update s k) (policy_state_dict lib (P k)) = Inr p'"
    and tg: "optimizer_for_update lib s k = Some tgt"
    and lo: "optimizer_load_state_dict lib tgt (optimizer_state_dict lib (Q k)) = Inr opt'"
    and tp: "map_of (task_policies s1) = (map_of (task_policies s))(k \<mapsto> p')"
    and to: "map_of (task_optimizers s1) = (map_of (task_optimizers s))(k \<mapsto> opt')"
    and m: "meta_policy s1 = meta_policy s" "meta_optimizer s1 = meta_optimizer s"
    and inv1: "paired s1" by blast
  from Cons.prems(2) have dk: "k \<notin> set ks" and dks: "distinct ks" by simp_all
  from Cons.prems(3) have rest: "\<forall>k\<in>set ks. map_of tasks k = Some \<lparr>saved_policy = Some (policy_state_dict lib (P k)),
                  saved_optimizer = Some (optimizer_state_dict lib (Q k))\<rparr>" by simp
  from Cons.IH[OF inv1 dks rest] obtain s' where
    r: "load_loop lib tasks ks s1 = Inr s'"
    and m': "meta_policy s' = meta_policy s1" "meta_optimizer s' = meta_optimizer s1"
    and out: "\<forall>j. j \<notin> set ks \<longrightarrow> map_of (task_policies s') j = map_of (task_policies s1) j
           \<and> map_of (task_optimizers s') j = map_of (task_optimizers s1) j"
    and ins: "\<forall>j\<in>set ks. \<exists>p' tgt opt'.
           policy_load_state_dict lib (policy_for_update s1 j) (policy_state_dict lib (P j)) = Inr p'
         \<and> optimizer_for_update lib s1 j = Some tgt
         \<and> optimizer_load_state_dict lib tgt (optimizer_state_dict lib (Q j)) = Inr opt'
         \<and> map_of (task_policies s') j = Some p' \<and> map_of (task_optimizers s') j = Some opt'"
    by blast
  have same: "policy_for_update s1 j = policy_for_update s j"
    "optimizer_for_update lib s1 j = optimizer_for_update lib s j" if "j \<noteq> k" for j
    using that tp to m by (simp_all add: policy_for_update_def optimizer_for_update_def split: option.splits)
  have 1: "load_loop lib tasks (k # ks) s = Inr s'" using s1 r by simp
  have 2: "\<forall>j. j \<notin> set (k # ks) \<longrightarrow> map_of (task_policies s') j = map_of (task_policies s) j
           \<and> map_of (task_optimizers s') j = map_of (task_optimizers s) j"
    using out tp to by simp
  have 3: "\<forall>j\<in>set (k # ks). \<exists>p' tgt opt'.
           policy_load_state_dict lib (policy_for_update s j) (policy_state_dict lib (P j)) = Inr p'
         \<and> optimizer_for_update lib s j = Some tgt
         \<and> optimizer_load_state_dict lib tgt (optimizer_state_dict lib (Q j)) = Inr opt'
         \<and> map_of (task_policies s') j = Some p' \<and> map_of (task_optimizers s') j = Some opt'"
  proof
    fix j assume j: "j \<in> set (k # ks)"
    show "\<exists>p' tgt opt'.
           policy_load_state_dict lib (policy_for_update s j) (policy_state_dict lib (P j)) = Inr p'
         \<and> optimizer_for_update lib s j = Some tgt
         \<and> optimizer_load_state_dict lib tgt (optimizer_state_dict lib (Q j)) = Inr opt'
         \<and> map_of (task_policies s') j = Some p' \<and> map_of (task_optimizers s') j = Some opt'"
    proof (cases "j = k")
      case True
      with out dk tp to have "map_of (task_policies s') j = Some p'" "map_of (task_optimizers s') j = Some opt'"
        by simp_all
      with True lp tg lo show ?thesis by blast
    next
      case False
      with j have jk: "j \<in> set ks" by simp
      from ins jk have "\<exists>p' tgt opt'.
           policy_load_state_dict lib (policy_for_update s1 j) (policy_state_dict lib (P j)) = Inr p'
         \<and> optimizer_for_update lib s1 j = Some tgt
         \<and> optimizer_load_state_dict lib tgt (optimizer_state_dict lib (Q j)) = Inr opt'
         \<and> map_of (task_policies s') j = Some p' \<and> map_of (task_optimizers s') j = Some opt'"
        by blast
      then show ?thesis unfolding same[OF False] .
    qed
  qed
  from 1 2 3 m m' show ?case by simp
qed

lemma save_model_archive:
  assumes saved: "save_model lib self fname fs = Inr fs'"
  shows "\<exists>tasks. torch_load fs' (path_join (model_dir self) fname) =
        Inr \<lparr>ck_meta_policy = Some \<lparr>saved_policy = Some (policy_state_dict lib (meta_policy self)),
               saved_optimizer = Some (optimizer_state_dict lib (meta_optimizer self))\<rparr>,
             ck_task_policies = Some tasks\<rparr>
     \<and> fst ` set tasks = fst ` set (task_policies self) \<and> distinct (map fst tasks)
     \<and> (\<forall>k\<in>fst ` set (task_policies self). \<exists>p opt.
           map_of (task_policies self) k = Some p \<and> map_of (task_optimizers self) k = Some opt
         \<and> map_of tasks k = Some \<lparr>saved_policy = Some (policy_state_dict lib p),
                                  saved_optimizer = Some (optimizer_state_dict lib opt)\<rparr>)"
proof -
  let ?keys = "map fst (task_policies self)"
  let ?f = "\<lambda>task_id. and_then (subscript (task_policies self) task_id) (\<lambda>p.
          and_then (subscript (task_optimizers self) task_id) (\<lambda>opt. Inr (task_id, p, opt)))"
  let ?g = "\<lambda>k. (k, the (map_of (task_policies self) k), the (map_of (task_optimizers self) k))"
  let ?F = "\<lambda>k. \<lparr>saved_policy = Some (policy_state_dict lib (the (map_of (task_policies self) k))),
                 saved_optimizer = Some (optimizer_state_dict lib (the (map_of (task_optimizers self) k)))\<rparr>"
  from saved obtain model_list where ml: "comprehension ?f ?keys = Inr model_list"
    by (auto simp: save_model_def Let_def and_then_def[of "comprehension _ _"] split: sum.splits)
  have each: "\<exists>p opt. map_of (task_policies self) k = Some p \<and> map_of (task_optimizers self) k = Some opt"
    if "k \<in> set ?keys" for k
    using comprehension_Inr_all[OF ml that]
    by (auto simp: and_then_def subscript_def split: option.splits)
  have fg: "?f k = Inr (?g k)" if "k \<in> set ?keys" for k
    using each[OF that] by (auto simp: and_then_def subscript_def)
  have ml': "model_list = map ?g ?keys" using comprehension_map[of ?keys ?f ?g] fg ml by simp
  let ?tasks = "fold (\<lambda>t d. AList.update t (?F t) d) ?keys []"
  have tasks: "fold (\<lambda>(task_id, p, opt) d. AList.update task_id
                      \<lparr>saved_policy = Some (policy_state_dict lib p),
                       saved_optimizer = Some (optimizer_state_dict lib opt)\<rparr> d) model_list [] = ?tasks"
    unfolding ml' by (simp add: fold_map comp_def)
  from saved ml tasks have w: "writable fs (path_join (model_dir self) fname)"
    and fs': "fs' = fs\<lparr>files := (files fs)(path_join (model_dir self) fname \<mapsto>
        Archive \<lparr>ck_meta_policy = Some \<lparr>saved_policy = Some (policy_state_dict lib (meta_policy self)),
               saved_optimizer = Some (optimizer_state_dict lib (meta_optimizer self))\<rparr>,
             ck_task_policies = Some ?tasks\<rparr>)\<rparr>"
    by (auto simp: save_model_def Let_def and_then_def torch_save_def split: if_splits)
  have 1: "torch_load fs' (path_join (model_dir self) fname) =
        Inr \<lparr>ck_meta_policy = Some \<lparr>saved_policy = Some (policy_state_dict lib (meta_policy self)),
               saved_optimizer = Some (optimizer_state_dict lib (meta_optimizer self))\<rparr>,
             ck_task_policies = Some ?tasks\<rparr>"
    unfolding fs' by (simp add: torch_load_def)
  have 2: "fst ` set ?tasks = fst ` set (task_policies self)"
    by (simp add: fold_update_keys)
  have 3: "\<forall>k\<in>fst ` set (task_policies self). \<exists>p opt.
           map_of (task_policies self) k = Some p \<and> map_of (task_optimizers self) k = Some opt
         \<and> map_of ?tasks k = Some \<lparr>saved_policy = Some (policy_state_dict lib p),
                                  saved_optimizer = Some (optimizer_state_dict lib opt)\<rparr>"
  proof
    fix k assume k: "k \<in> fst ` set (task_policies self)"
    then have "k \<in> set ?keys" by simp
    from each[OF this] obtain p opt where "map_of (task_policies self) k = Some p"
      "map_of (task_optimizers self) k = Some opt" by blast
    then show "\<exists>p opt. map_of (task_policies self) k = Some p \<and> map_of (task_optimizers self) k = Some opt
         \<and> map_of ?tasks k = Some \<lparr>saved_policy = Some (policy_state_dict lib p),
                                  saved_optimizer = Some (optimizer_state_dict lib opt)\<rparr>"
      using k by (simp add: fold_update_map_of)
  qed
  have 4: "distinct (map fst ?tasks)" by (rule fold_update_distinct) simp
  from 1 2 3 4 show ?thesis by blast
qed

text \<open>
  Claim C5. Let loading a state dictionary that was read from a policy or an optimizer
  never raise. If \<^verbatim>\<open>save_model\<close> of an agent returns, then \<^verbatim>\<open>load_model\<close> on the
  file it wrote, by that agent or by any agent whose task policies have their optimizers,
  completes its \<^verbatim>\<open>try\<close> block, and afterwards:
  the meta-policy and the meta-optimizer are the loading agent's, loaded with the saved
  states; for every saved task id, the policy is the result of loading the saved state
  into the task policy the loading agent held or, when it held none, into a copy of the
  meta-policy as just restored, and the optimizer is the result of loading the saved state
  into the optimizer it held or into a fresh Adam of that copy; task ids outside the
  archive are left as they were. When loading a state dictionary gives an object the state
  the dictionary was read from, the meta-policy, the meta-optimizer and the policy and
  optimizer of every saved task id therefore equal the saved agent's.
\<close>

theorem checkpoint_round_trip:
  assumes H1: "\<forall>p q. \<exists>r. policy_load_state_dict lib p (policy_state_dict lib q) = Inr r"
    and H2: "\<forall>opt r. \<exists>u. optimizer_load_state_dict lib opt (optimizer_state_dict lib r) = Inr u"
    and saved: "save_model lib self fname fs = Inr fs'"
    and inv: "paired other"
  shows "\<exists>self'. load_model_try lib other (path_join (model_dir self) fname) fs' = Inr self'
     \<and> load_model lib other (path_join (model_dir self) fname) fs' = Inr self'
     \<and> policy_load_state_dict lib (meta_policy other) (policy_state_dict lib (meta_policy self))
         = Inr (meta_policy self')
     \<and> optimizer_load_state_dict lib (meta_optimizer other)
           (optimizer_state_dict lib (meta_optimizer self)) = Inr (meta_optimizer self')
     \<and> (\<forall>t p. map_of (task_policies self) t = Some p \<longrightarrow>
          (\<exists>opt p' tgt opt'. map_of (task_optimizers self) t = Some opt
           \<and> policy_load_state_dict lib
                (case map_of (task_policies other) t of None \<Rightarrow> meta_policy self' | Some q \<Rightarrow> q)
                (policy_state_dict lib p) = Inr p'
           \<and> (case map_of (task_policies other) t of
                 None \<Rightarrow> Some (Adam lib (meta_policy self'))
               | Some q \<Rightarrow> map_of (task_optimizers other) t) = Some tgt
           \<and> optimizer_load_state_dict lib tgt (optimizer_state_dict lib opt) = Inr opt'
           \<and> map_of (task_policies self') t = Some p'
           \<and> map_of (task_optimizers self') t = Some opt'))
     \<and> (\<forall>t. map_of (task_policies self) t = None \<longrightarrow>
           map_of (task_policies self') t = map_of (task_policies other) t
         \<and> map_of (task_optimizers self') t = map_of (task_optimizers other) t)
     \<and> ((\<forall>p q. policy_load_state_dict lib p (policy_state_dict lib q) = Inr q)
        \<and> (\<forall>opt r. optimizer_load_state_dict lib opt (optimizer_state_dict lib r) = Inr r) \<longrightarrow>
          meta_policy self' = meta_policy self \<and> meta_optimizer self' = meta_optimizer self
        \<and> (\<forall>t p. map_of (task_policies self) t = Some p \<longrightarrow>
              map_of (task_policies self') t = Some p
            \<and> map_of (task_optimizers self') t = map_of (task_optimizers self) t
            \<and> map_of (task_optimizers self') t \<noteq> None))"
proof -
  let ?path = "path_join (model_dir self) fname"
  from save_model_archive[OF saved] obtain tasks where
    ld: "torch_load fs' ?path =
        Inr \<lparr>ck_meta_policy = Some \<lparr>saved_policy = Some (policy_state_dict lib (meta_policy self)),
               saved_optimizer = Some (optimizer_state_dict lib (meta_optimizer self))\<rparr>,
             ck_task_policies = Some tasks\<rparr>"
    and keys: "fst ` set tasks = fst ` set (task_policies self)"
    and dist: "distinct (map fst tasks)"
    and ent: "\<forall>k\<in>fst ` set (task_policies self). \<exists>p opt.
           map_of (task_policies self) k = Some p \<and> map_of (task_optimizers self) k = Some opt
         \<and> map_of tasks k = Some \<lparr>saved_policy = Some (policy_state_dict lib p),
                                  saved_optimizer = Some (optimizer_state_dict lib opt)\<rparr>"
    by blast
  from H1 obtain M where M: "policy_load_state_dict lib (meta_policy other)
      (policy_state_dict lib (meta_policy self)) = Inr M" by blast
  from H2 obtain MO where MO: "optimizer_load_state_dict lib (meta_optimizer other)
      (optimizer_state_dict lib (meta_optimizer self)) = Inr MO" by blast
  let ?P = "\<lambda>k. the (map_of (task_policies self) k)"
  let ?Q = "\<lambda>k. the (map_of (task_optimizers self) k)"
  let ?s2 = "other\<lparr>meta_policy := M, meta_optimizer := MO\<rparr>"
  have inv2: "paired ?s2" using inv by (simp add: paired_def)
  have ent': "\<forall>k\<in>set (map fst tasks). map_of tasks k =
      Some \<lparr>saved_policy = Some (policy_state_dict lib (?P k)),
            saved_optimizer = Some (optimizer_state_dict lib (?Q k))\<rparr>"
  proof
    fix k assume "k \<in> set (map fst tasks)"
    then have "k \<in> fst ` set (task_policies self)" using keys by simp
    with ent show "map_of tasks k =
      Some \<lparr>saved_policy = Some (policy_state_dict lib (?P k)),
            saved_optimizer = Some (optimizer_state_dict lib (?Q k))\<rparr>" by fastforce
  qed
  from load_loop_general[OF H1 H2 inv2 dist ent'] obtain s' where
    loop: "load_loop lib tasks (map fst tasks) ?s2 = Inr s'"
    and m: "meta_policy s' = meta_policy ?s2" "meta_optimizer s' = meta_optimizer ?s2"
    and out: "\<forall>k. k \<notin> set (map fst tasks) \<longrightarrow>
        map_of (task_policies s') k = map_of (task_policies ?s2) k
      \<and> map_of (task_optimizers s') k = map_of (task_optimizers ?s2) k"
    and ins: "\<forall>k\<in>set (map fst tasks). \<exists>p' tgt opt'.
           policy_load_state_dict lib (policy_for_update ?s2 k) (policy_state_dict lib (?P k)) = Inr p'
         \<and> optimizer_for_update lib ?s2 k = Some tgt
         \<and> optimizer_load_state_dict lib tgt (optimizer_state_dict lib (?Q k)) = Inr opt'
         \<and> map_of (task_policies s') k = Some p' \<and> map_of (task_optimizers s') k = Some opt'"
    by blast
  have mm: "meta_policy s' = M" "meta_optimizer s' = MO" using m by simp_all
  have tried: "load_model_try lib other ?path fs' = Inr s'"
    using ld M MO loop by (simp add: load_model_try_def attempt_def key_of_def Let_def)
  then have lm: "load_model lib other ?path fs' = Inr s'" by (simp add: load_model_def)
  have present: "\<forall>t p. map_of (task_policies self) t = Some p \<longrightarrow>
          (\<exists>opt p' tgt opt'. map_of (task_optimizers self) t = Some opt
           \<and> policy_load_state_dict lib
                (case map_of (task_policies other) t of None \<Rightarrow> meta_policy s' | Some q \<Rightarrow> q)
                (policy_state_dict lib p) = Inr p'
           \<and> (case map_of (task_policies other) t of
                 None \<Rightarrow> Some (Adam lib (meta_policy s'))
               | Some q \<Rightarrow> map_of (task_optimizers other) t) = Some tgt
           \<and> optimizer_load_state_dict lib tgt (optimizer_state_dict lib opt) = Inr opt'
           \<and> map_of (task_policies s') t = Some p'
           \<and> map_of (task_optimizers s') t = Some opt')"
  proof (intro allI impI)
    fix t p assume p: "map_of (task_policies self) t = Some p"
    then have k: "t \<in> fst ` set (task_policies self)" by (metis map_of_eq_None_iff option.distinct(1))
    with ent p obtain opt where o: "map_of (task_optimizers self) t = Some opt" by fastforce
    from k keys have "t \<in> set (map fst tasks)" by simp
    with ins obtain p' tgt opt' where
      a: "policy_load_state_dict lib (policy_for_update ?s2 t) (policy_state_dict lib (?P t)) = Inr p'"
      and b: "optimizer_for_update lib ?s2 t = Some tgt"
      and c: "optimizer_load_state_dict lib tgt (optimizer_state_dict lib (?Q t)) = Inr opt'"
      and d: "map_of (task_policies s') t = Some p'" "map_of (task_optimizers s') t = Some opt'"
      by blast
    have a': "policy_load_state_dict lib
                (case map_of (task_policies other) t of None \<Rightarrow> meta_policy s' | Some q \<Rightarrow> q)
                (policy_state_dict lib p) = Inr p'"
      using a p mm by (simp add: policy_for_update_def split: option.splits)
    have b': "(case map_of (task_policies other) t of
                 None \<Rightarrow> Some (Adam lib (meta_policy s'))
               | Some q \<Rightarrow> map_of (task_optimizers other) t) = Some tgt"
      using b mm by (simp add: optimizer_for_update_def split: option.splits)
    have c': "optimizer_load_state_dict lib tgt (optimizer_state_dict lib opt) = Inr opt'"
      using c o by simp
    from o a' b' c' d show "\<exists>opt p' tgt opt'. map_of (task_optimizers self) t = Some opt
           \<and> policy_load_state_dict lib
                (case map_of (task_policies other) t of None \<Rightarrow> meta_policy s' | Some q \<Rightarrow> q)
                (policy_state_dict lib p) = Inr p'
           \<and> (case map_of (task_policies other) t of
                 None \<Rightarrow> Some (Adam lib (meta_policy s'))
               | Some q \<Rightarrow> map_of (task_optimizers other) t) = Some tgt
           \<and> optimizer_load_state_dict lib tgt (optimizer_state_dict lib opt) = Inr opt'
           \<and> map_of (task_policies s') t = Some p'
           \<and> map_of (task_optimizers s') t = Some opt'" by blast
  qed
  have absent: "\<forall>t. map_of (task_policies self) t = None \<longrightarrow>
           map_of (task_policies s') t = map_of (task_policies other) t
         \<and> map_of (task_optimizers s') t = map_of (task_optimizers other) t"
  proof (intro allI impI)
    fix t assume "map_of (task_policies self) t = None"
    then have "t \<notin> fst ` set (task_policies self)" by (simp add: map_of_eq_None_iff)
    then have "t \<notin> set (map fst tasks)" using keys by simp
    with out show "map_of (task_policies s') t = map_of (task_policies other) t
         \<and> map_of (task_optimizers s') t = map_of (task_optimizers other) t" by simp
  qed
  have law: "(\<forall>p q. policy_load_state_dict lib p (policy_state_dict lib q) = Inr q)
        \<and> (\<forall>opt r. optimizer_load_state_dict lib opt (optimizer_state_dict lib r) = Inr r) \<longrightarrow>
          meta_policy s' = meta_policy self \<and> meta_optimizer s' = meta_optimizer self
        \<and> (\<forall>t p. map_of (task_policies self) t = Some p \<longrightarrow>
              map_of (task_policies s') t = Some p
            \<and> map_of (task_optimizers s') t = map_of (task_optimizers self) t
            \<and> map_of (task_optimizers s') t \<noteq> None)"
  proof (intro impI, elim conjE)
    assume L1: "\<forall>p q. policy_load_state_dict lib p (policy_state_dict lib q) = Inr q"
      and L2: "\<forall>opt r. optimizer_load_state_dict lib opt (optimizer_state_dict lib r) = Inr r"
    have e1: "meta_policy s' = meta_policy self" using M L1 mm by simp
    have e2: "meta_optimizer s' = meta_optimizer self" using MO L2 mm by simp
    have e3: "\<forall>t p. map_of (task_policies self) t = Some p \<longrightarrow>
              map_of (task_policies s') t = Some p
            \<and> map_of (task_optimizers s') t = map_of (task_optimizers self) t
            \<and> map_of (task_optimizers s') t \<noteq> None"
    proof (intro allI impI)
      fix t p assume p: "map_of (task_policies self) t = Some p"
      with present obtain opt p' tgt opt' where
        o: "map_of (task_optimizers self) t = Some opt"
        and a: "policy_load_state_dict lib
                (case map_of (task_policies other) t of None \<Rightarrow> meta_policy s' | Some q \<Rightarrow> q)
                (policy_state_dict lib p) = Inr p'"
        and c: "optimizer_load_state_dict lib tgt (optimizer_state_dict lib opt) = Inr opt'"
        and d: "map_of (task_policies s') t = Some p'" "map_of (task_optimizers s') t = Some opt'"
        by blast
      from a L1 have "p' = p" by simp
      moreover from c L2 have "opt' = opt" by simp
      ultimately show "map_of (task_policies s') t = Some p
            \<and> map_of (task_optimizers s') t = map_of (task_optimizers self) t
            \<and> map_of (task_optimizers s') t \<noteq> None" using d o by simp
    qed
    from e1 e2 e3 show "meta_policy s' = meta_policy self \<and> meta_optimizer s' = meta_optimizer self
        \<and> (\<forall>t p. map_of (task_policies self) t = Some p \<longrightarrow>
              map_of (task_policies s') t = Some p
            \<and> map_of (task_optimizers s') t = map_of (task_optimizers self) t
            \<and> map_of (task_optimizers s') t \<noteq> None)" by blast
  qed
  show ?thesis
    apply (rule exI[of _ s'])
    apply (intro conjI)
    apply (rule tried) apply (rule lm)
    apply (simp add: M mm) apply (simp add: MO mm)
    apply (rule present) apply (rule absent) apply (rule law)
    done
qed

lemma example_save_returns: "\<not> isl (save_model example_torch trained_agent ''best.pt'' empty_fs)"
  by code_simp

lemma tagging_save_returns: "\<not> isl (save_model tagging_torch trained_agent ''best.pt'' empty_fs)"
  by code_simp

text \<open>
  A trained agent saves; a fresh agent without task policies loads the file. With a
  library that restores exactly, it holds the trained agent's meta-policy, meta-optimizer
  and the policies and optimizers of the tasks 3 and 5. With a library whose loading
  keeps a trace of the object loaded into, the restored meta-policy is 8 + 1000 * 7 = 7008
  and the policy of task 3 is 10 + 1000 * 7008: the saved state was loaded into a copy of
  the meta-policy as restored, and the optimizer into a fresh Adam of that copy.
\<close>

theorem checkpoint_round_trip_witness:
  "(\<forall>p q. \<exists>r. policy_load_state_dict tagging_torch p (policy_state_dict tagging_torch q) = Inr r)
   \<and> (\<forall>opt r. \<exists>u. optimizer_load_state_dict tagging_torch opt (optimizer_state_dict tagging_torch r) = Inr u)
   \<and> (\<forall>p q. policy_load_state_dict example_torch p (policy_state_dict example_torch q) = Inr q)
   \<and> (\<forall>opt r. optimizer_load_state_dict example_torch opt (optimizer_state_dict example_torch r) = Inr r)
   \<and> paired example_agent \<and> task_policies example_agent = []
   \<and> (\<exists>fs' self'. save_model tagging_torch trained_agent ''best.pt'' empty_fs = Inr fs'
        \<and> load_model tagging_torch example_agent ''model/best.pt'' fs' = Inr self'
        \<and> meta_policy self' = 7008 \<and> meta_optimizer self' = 2
        \<and> map_of (task_policies self') 3 = Some 7008010
        \<and> map_of (task_optimizers self') 3 = Some 7008001)
   \<and> (\<exists>fs' self'. save_model example_torch trained_agent ''best.pt'' empty_fs = Inr fs'
        \<and> load_model example_torch example_agent ''model/best.pt'' fs' = Inr self'
        \<and> meta_policy self' = 8 \<and> meta_optimizer self' = 2
        \<and> map_of (task_policies self') 3 = Some 10 \<and> map_of (task_optimizers self') 3 = Some 1
        \<and> map_of (task_policies self') 5 = Some 11 \<and> map_of (task_optimizers self') 5 = Some 4)"
proof -
  have T1: "\<forall>p q. \<exists>r. policy_load_state_dict tagging_torch p (policy_state_dict tagging_torch q) = Inr r"
    by (simp add: tagging_torch_def)
  have T2: "\<forall>opt r. \<exists>u. optimizer_load_state_dict tagging_torch opt (optimizer_state_dict tagging_torch r) = Inr u"
    by (simp add: tagging_torch_def)
  have L1: "\<forall>p q. policy_load_state_dict example_torch p (policy_state_dict example_torch q) = Inr q"
    by (simp add: example_torch_def)
  have L2: "\<forall>opt r. optimizer_load_state_dict example_torch opt (optimizer_state_dict example_torch r) = Inr r"
    by (simp add: example_torch_def)
  have E1: "\<forall>p q. \<exists>r. policy_load_state_dict example_torch p (policy_state_dict example_torch q) = Inr r"
    using L1 by simp
  have E2: "\<forall>opt r. \<exists>u. optimizer_load_state_dict example_torch opt (optimizer_state_dict example_torch r) = Inr u"
    using L2 by simp
  have inv: "paired example_agent" by (simp add: paired_def example_agent_def)
  have nil: "task_policies example_agent = []" by (simp add: example_agent_def)
  have path: "path_join (model_dir trained_agent) ''best.pt'' = ''model/best.pt''"
    by (simp add: path_join_def trained_agent_def example_agent_def)
  have tp: "map_of (task_policies trained_agent) 3 = Some 10" "map_of (task_policies trained_agent) 5 = Some 11"
    "map_of (task_optimizers trained_agent) 3 = Some 1" "map_of (task_optimizers trained_agent) 5 = Some 4"
    "meta_policy trained_agent = 8" "meta_optimizer trained_agent = 2"
    by (simp_all add: trained_agent_def)
  have ex: "meta_policy example_agent = 7" "meta_optimizer example_agent = 0"
    "map_of (task_policies example_agent) 3 = None"
    by (simp_all add: example_agent_def)
  obtain fs1 where saved1: "save_model tagging_torch trained_agent ''best.pt'' empty_fs = Inr fs1"
    using tagging_save_returns by (cases "save_model tagging_torch trained_agent ''best.pt'' empty_fs") auto
  have A: "\<exists>self'. load_model tagging_torch example_agent ''model/best.pt'' fs1 = Inr self'
        \<and> meta_policy self' = 7008 \<and> meta_optimizer self' = 2
        \<and> map_of (task_policies self') 3 = Some 7008010
        \<and> map_of (task_optimizers self') 3 = Some 7008001"
    using checkpoint_round_trip[OF T1 T2 saved1 inv] unfolding path
    apply (elim exE conjE)
    subgoal premises p for self'
    proof -
      have mp: "meta_policy self' = 7008" using p(3) by (simp add: tagging_torch_def tp ex)
      have mo: "meta_optimizer self' = 2" using p(4) by (simp add: tagging_torch_def tp ex)
      from p(5) tp(1) obtain opt p' tgt opt' where
        o: "map_of (task_optimizers trained_agent) 3 = Some opt"
        and a: "policy_load_state_dict tagging_torch
                (case map_of (task_policies example_agent) 3 of None \<Rightarrow> meta_policy self' | Some q \<Rightarrow> q)
                (policy_state_dict tagging_torch 10) = Inr p'"
        and b: "(case map_of (task_policies example_agent) 3 of
                 None \<Rightarrow> Some (Adam tagging_torch (meta_policy self'))
               | Some q \<Rightarrow> map_of (task_optimizers example_agent) 3) = Some tgt"
        and c: "optimizer_load_state_dict tagging_torch tgt (optimizer_state_dict tagging_torch opt) = Inr opt'"
        and d: "map_of (task_policies self') 3 = Some p'" "map_of (task_optimizers self') 3 = Some opt'"
        by blast
      from o tp(3) have o1: "opt = 1" by simp
      from a have p1: "p' = 7008010" by (simp add: ex mp tagging_torch_def)
      from b have t1: "tgt = 7008" by (simp add: ex mp tagging_torch_def)
      from c have q1: "opt' = 7008001" by (simp add: o1 t1 tagging_torch_def)
      show ?thesis using p(2) mp mo d p1 q1 by blast
    qed
    done
  obtain fs2 where saved2: "save_model example_torch trained_agent ''best.pt'' empty_fs = Inr fs2"
    using example_save_returns by (cases "save_model example_torch trained_agent ''best.pt'' empty_fs") auto
  have B: "\<exists>self'. load_model example_torch example_agent ''model/best.pt'' fs2 = Inr self'
        \<and> meta_policy self' = 8 \<and> meta_optimizer self' = 2
        \<and> map_of (task_policies self') 3 = Some 10 \<and> map_of (task_optimizers self') 3 = Some 1
        \<and> map_of (task_policies self') 5 = Some 11 \<and> map_of (task_optimizers self') 5 = Some 4"
    using checkpoint_round_trip[OF E1 E2 saved2 inv] unfolding path
    apply (elim exE conjE)
    subgoal premises p for self'
    proof -
      from p(7) L1 L2 have m: "meta_policy self' = meta_policy trained_agent"
        "meta_optimizer self' = meta_optimizer trained_agent"
        and all: "\<forall>t p. map_of (task_policies trained_agent) t = Some p \<longrightarrow>
              map_of (task_policies self') t = Some p
            \<and> map_of (task_optimizers self') t = map_of (task_optimizers trained_agent) t
            \<and> map_of (task_optimizers self') t \<noteq> None"
        by blast+
      from all tp(1) tp(2) have "map_of (task_policies self') 3 = Some 10" "map_of (task_policies self') 5 = Some 11"
        "map_of (task_optimizers self') 3 = map_of (task_optimizers trained_agent) 3"
        "map_of (task_optimizers self') 5 = map_of (task_optimizers trained_agent) 5"
        by blast+
      then show ?thesis using p(2) m tp by auto
    qed
    done
  from A saved1 have A': "\<exists>fs' self'. save_model tagging_torch trained_agent ''best.pt'' empty_fs = Inr fs'
        \<and> load_model tagging_torch example_agent ''model/best.pt'' fs' = Inr self'
        \<and> meta_policy self' = 7008 \<and> meta_optimizer self' = 2
        \<and> map_of (task_policies self') 3 = Some 7008010
        \<and> map_of (task_optimizers self') 3 = Some 7008001" by blast
  from B saved2 have B': "\<exists>fs' self'. save_model example_torch trained_agent ''best.pt'' empty_fs = Inr fs'
        \<and> load_model example_torch example_agent ''model/best.pt'' fs' = Inr self'
        \<and> meta_policy self' = 8 \<and> meta_optimizer self' = 2
        \<and> map_of (task_policies self') 3 = Some 10 \<and> map_of (task_optimizers self') 3 = Some 1
        \<and> map_of (task_policies self') 5 = Some 11 \<and> map_of (task_optimizers self') 5 = Some 4" by blast
  show ?thesis
    apply (intro conjI)
    apply (rule T1) apply (rule T2) apply (rule L1) apply (rule L2) apply (rule inv) apply (rule nil)
    apply (rule A') apply (rule B')
    done
qed

end
